theory Spec2Isabelle
  imports Main
begin

section \<open>The voting subsystem: ledger, trigger-maintained counters, HTTP handlers\<close>

text \<open>
  The model follows two sources: the handlers of \<^verbatim>\<open>voting-service/server.js\<close>
  (POST /votes, PUT /votes/:id, DELETE /votes/:id, POST /votes/bulk) and the database they
  talk to (the tables of the schema script and the three \<^verbatim>\<open>update_votes_count_after_*\<close>
  triggers of \<^verbatim>\<open>0-triggers.sql\<close>).

  A handler is a sequence of SQL statements: POST, PUT and DELETE issue each through the
  connection pool in its own implicit transaction, the bulk runner issues its statements
  inside one transaction. A statement together with the triggers it fires is one atomic step
  on the database state. For POST /votes, what other sessions do between two of its
  statements is a parameter of the model (a function on the database state), the identity
  when the handler runs alone.

  The trigger script, which ends inside \<^verbatim>\<open>validate_feature_status_transition\<close> (a trigger on
  \<^verbatim>\<open>features\<close>), defines four triggers on \<^verbatim>\<open>votes\<close>: the three that maintain the counters,
  modelled below, and \<^verbatim>\<open>log_vote_activity\<close>, which writes an audit row. None of them rejects
  a vote, so no statement of the model raises \<^verbatim>\<open>ER_SIGNAL_EXCEPTION\<close>; the catch block that
  handles it is modelled all the same.

  Not modelled: the middleware in front of a handler (authentication, rate limiting, request
  validation: a handler is entered with a numeric user id and validated fields), the
  display columns of a feature (title, description, ...), and the rows the insert triggers add
  to \<^verbatim>\<open>notifications\<close> and \<^verbatim>\<open>activity_logs\<close> (they read the vote and never reject it).
\<close>

subsection \<open>Tables\<close>

datatype vote_type = upvote | downvote

datatype status = pending | approved | rejected | implemented | archived

text \<open>A row of \<^verbatim>\<open>votes\<close>. Timestamps are readings of the database clock.\<close>

record vote =
  v_id :: nat
  v_user_id :: nat
  v_feature_id :: nat
  v_vote_type :: vote_type
  v_created_at :: nat
  v_updated_at :: nat

text \<open>A row of \<^verbatim>\<open>features\<close>: key, owner, status, the three counters (INT columns).\<close>

record feature =
  f_id :: nat
  f_user_id :: nat
  f_status :: status
  votes_count :: int
  upvotes_count :: int
  downvotes_count :: int
  f_updated_at :: nat

text \<open>
  The database: the keys of \<^verbatim>\<open>users\<close>, the two tables in row order, the AUTO_INCREMENT
  counter of \<^verbatim>\<open>votes.id\<close>, and the clock that \<^verbatim>\<open>NOW()\<close> and
  \<^verbatim>\<open>CURRENT_TIMESTAMP\<close> read.
\<close>

record db =
  users :: "nat list"
  features :: "feature list"
  votes :: "vote list"
  votes_auto_increment :: nat
  now :: nat

text \<open>The errors a statement of the voting service can raise (\<^verbatim>\<open>error.code\<close>).\<close>

datatype sql_error =
    ER_DUP_ENTRY
  | ER_NO_REFERENCED_ROW_2
  | ER_SIGNAL_EXCEPTION string

subsection \<open>Triggers on \<^verbatim>\<open>votes\<close>\<close>

text \<open>\<^verbatim>\<open>COUNT(CASE WHEN vote_type = t THEN 1 END) FROM votes WHERE feature_id = fid\<close>\<close>

definition count_votes :: "vote list \<Rightarrow> nat \<Rightarrow> vote_type \<Rightarrow> int" where
  "count_votes vs fid t =
     int (length (filter (\<lambda>v. v_feature_id v = fid \<and> v_vote_type v = t) vs))"

text \<open>
  The body the three triggers share: count the feature's upvotes and downvotes into the
  two local variables, then \<^verbatim>\<open>UPDATE features SET votes_count = upvote_count - downvote_count,
  upvotes_count = upvote_count, downvotes_count = downvote_count, updated_at = CURRENT_TIMESTAMP
  WHERE id = fid\<close>. The update leaves \<^verbatim>\<open>status\<close> alone, so the status-transition trigger on
  \<^verbatim>\<open>features\<close> has nothing to reject.
\<close>

definition recount_feature :: "db \<Rightarrow> nat \<Rightarrow> db" where
  "recount_feature d fid =
     (let upvote_count = count_votes (votes d) fid upvote;
          downvote_count = count_votes (votes d) fid downvote
      in d\<lparr>features :=
            map (\<lambda>f. if f_id f = fid
                      then f\<lparr>votes_count := upvote_count - downvote_count,
                             upvotes_count := upvote_count,
                             downvotes_count := downvote_count,
                             f_updated_at := now d\<rparr>
                      else f)
                (features d)\<rparr>)"

definition update_votes_count_after_insert :: "db \<Rightarrow> vote \<Rightarrow> db" where
  "update_votes_count_after_insert d NEW = recount_feature d (v_feature_id NEW)"

text \<open>\<^verbatim>\<open>IF OLD.vote_type != NEW.vote_type THEN ... END IF\<close>\<close>

definition update_votes_count_after_update :: "db \<Rightarrow> vote \<Rightarrow> vote \<Rightarrow> db" where
  "update_votes_count_after_update d OLD NEW =
     (if v_vote_type OLD \<noteq> v_vote_type NEW then recount_feature d (v_feature_id NEW) else d)"

definition update_votes_count_after_delete :: "db \<Rightarrow> vote \<Rightarrow> db" where
  "update_votes_count_after_delete d OLD = recount_feature d (v_feature_id OLD)"

subsection \<open>The SQL statements of the handlers\<close>

text \<open>\<^verbatim>\<open>SELECT id, user_id, status FROM features WHERE id = ?\<close>\<close>

definition select_feature :: "db \<Rightarrow> nat \<Rightarrow> feature list" where
  "select_feature d fid = filter (\<lambda>f. f_id f = fid) (features d)"

text \<open>\<^verbatim>\<open>SELECT id, vote_type FROM votes WHERE user_id = ? AND feature_id = ?\<close>\<close>

definition select_user_feature_votes :: "db \<Rightarrow> nat \<Rightarrow> nat \<Rightarrow> vote list" where
  "select_user_feature_votes d uid fid =
     filter (\<lambda>v. v_user_id v = uid \<and> v_feature_id v = fid) (votes d)"

text \<open>\<^verbatim>\<open>SELECT ... FROM votes WHERE id = ? AND user_id = ?\<close>\<close>

definition select_vote_of_user :: "db \<Rightarrow> nat \<Rightarrow> nat \<Rightarrow> vote list" where
  "select_vote_of_user d vid uid =
     filter (\<lambda>v. v_id v = vid \<and> v_user_id v = uid) (votes d)"

text \<open>\<^verbatim>\<open>SELECT v.* ... FROM votes v JOIN features f ON v.feature_id = f.id WHERE v.id = ?\<close>\<close>

definition select_vote_joined :: "db \<Rightarrow> nat \<Rightarrow> vote list" where
  "select_vote_joined d vid =
     filter (\<lambda>v. v_id v = vid \<and> v_feature_id v \<in> f_id ` set (features d)) (votes d)"

text \<open>The counts query that closes POST /votes: upvotes, downvotes, total_votes.\<close>

definition select_vote_counts :: "db \<Rightarrow> nat \<Rightarrow> int \<times> int \<times> int" where
  "select_vote_counts d fid =
     (count_votes (votes d) fid upvote,
      count_votes (votes d) fid downvote,
      count_votes (votes d) fid upvote - count_votes (votes d) fid downvote)"

text \<open>
  \<^verbatim>\<open>INSERT INTO votes (user_id, feature_id, vote_type) VALUES (?, ?, ?)\<close>.
  The two foreign keys and the key \<^verbatim>\<open>unique_user_feature_vote\<close> can reject the row; a rejected
  statement is undone and leaves every row as it was (the model also keeps the AUTO_INCREMENT
  counter there: an engine that skips a value on a rejected insert shows it in no row). Under
  referential integrity the two rejections exclude each other; the foreign keys are tested
  first. An accepted row takes the next AUTO_INCREMENT value as its id and the clock as both
  timestamps, then the AFTER INSERT trigger runs. The result carries \<^verbatim>\<open>insertId\<close>.
\<close>

definition insert_vote :: "db \<Rightarrow> nat \<Rightarrow> nat \<Rightarrow> vote_type \<Rightarrow> sql_error + (db \<times> nat)" where
  "insert_vote d uid fid t =
     (if uid \<notin> set (users d) \<or> fid \<notin> f_id ` set (features d) then Inl ER_NO_REFERENCED_ROW_2
      else if select_user_feature_votes d uid fid \<noteq> [] then Inl ER_DUP_ENTRY
      else
        let NEW = \<lparr>v_id = votes_auto_increment d, v_user_id = uid, v_feature_id = fid,
                   v_vote_type = t, v_created_at = now d, v_updated_at = now d\<rparr>;
            d1 = d\<lparr>votes := votes d @ [NEW],
                   votes_auto_increment := Suc (votes_auto_increment d)\<rparr>
        in Inr (update_votes_count_after_insert d1 NEW, v_id NEW))"

text \<open>
  \<^verbatim>\<open>UPDATE votes SET vote_type = ?, updated_at = NOW() WHERE id = ?\<close>.
  \<^verbatim>\<open>id\<close> is the primary key, so the statement finds one row or none; with none it changes
  nothing and raises nothing. The AFTER UPDATE trigger runs for the row found.
\<close>

definition set_vote :: "vote_type \<Rightarrow> nat \<Rightarrow> vote \<Rightarrow> vote" where
  "set_vote t ts v = v\<lparr>v_vote_type := t, v_updated_at := ts\<rparr>"

definition update_vote_type :: "db \<Rightarrow> vote_type \<Rightarrow> nat \<Rightarrow> db" where
  "update_vote_type d t vid =
     (case find (\<lambda>v. v_id v = vid) (votes d) of
        None \<Rightarrow> d
      | Some OLD \<Rightarrow>
          let d1 = d\<lparr>votes := map (\<lambda>v. if v_id v = vid then set_vote t (now d) v else v)
                                   (votes d)\<rparr>
          in update_votes_count_after_update d1 OLD (set_vote t (now d) OLD))"

text \<open>\<^verbatim>\<open>DELETE FROM votes WHERE id = ?\<close>, then the AFTER DELETE trigger for the row removed.\<close>

definition delete_vote :: "db \<Rightarrow> nat \<Rightarrow> db" where
  "delete_vote d vid =
     (case find (\<lambda>v. v_id v = vid) (votes d) of
        None \<Rightarrow> d
      | Some OLD \<Rightarrow>
          let d1 = d\<lparr>votes := filter (\<lambda>v. v_id v \<noteq> vid) (votes d)\<rparr>
          in update_votes_count_after_delete d1 OLD)"

subsection \<open>Responses\<close>

datatype action = created | updated | removed

datatype bulk_action = create | update | delete

record bulk_op =
  op_action :: bulk_action
  op_feature_id :: "nat option"
  op_vote_id :: "nat option"
  op_vote_type :: "vote_type option"

text \<open>
  One entry of the bulk runner's \<^verbatim>\<open>results\<close>: the operation, \<^verbatim>\<open>success\<close>, \<^verbatim>\<open>vote_id\<close>
  (set by a successful create) and \<^verbatim>\<open>error\<close> (set by the catch; the error stands for its
  message).
\<close>

record bulk_result =
  r_operation :: bulk_op
  r_success :: bool
  r_vote_id :: "nat option"
  r_error :: "sql_error option"

text \<open>
  The JSON bodies: \<^verbatim>\<open>{success: false, error}\<close>; the data of POST /votes
  (\<^verbatim>\<open>vote_id, action, vote_type, feature_id, vote_counts\<close>); the data of PUT
  (\<^verbatim>\<open>updatedVotes[0]\<close>, undefined when the join is empty); the acknowledgement of DELETE; the
  bulk summary (successful, total) with its results.
\<close>

datatype body =
    Failure string
  | Vote_processed "nat option" action "vote_type option" nat "int \<times> int \<times> int"
  | Vote_updated "vote option"
  | Vote_deleted
  | Bulk_completed nat nat "bulk_result list"

type_synonym response = "nat \<times> body"

subsection \<open>POST /votes\<close>

text \<open>
  The catch block of POST /votes: a trigger's SIGNAL becomes a 400 with its message
  (\<^verbatim>\<open>error.sqlMessage || 'Vote operation failed'\<close>), every other error a 500.
\<close>

definition cast_vote_catch :: "sql_error \<Rightarrow> response" where
  "cast_vote_catch e =
     (case e of
        ER_SIGNAL_EXCEPTION sqlMessage \<Rightarrow>
          (400, Failure (if sqlMessage = [] then ''Vote operation failed'' else sqlMessage))
      | _ \<Rightarrow> (500, Failure ''Internal server error''))"

text \<open>
  The branch on \<^verbatim>\<open>existingVotes\<close>: delete on the same vote type, update on a different one,
  insert when there is none. It yields the database after the write with \<^verbatim>\<open>voteId\<close> and
  \<^verbatim>\<open>action\<close>, or the error the write raised.
\<close>

definition cast_vote_write ::
  "db \<Rightarrow> nat \<Rightarrow> nat \<Rightarrow> vote_type \<Rightarrow> vote list \<Rightarrow> sql_error + (db \<times> nat option \<times> action)" where
  "cast_vote_write d userId feature_id vote_type existingVotes =
     (case existingVotes of
        existingVote # _ \<Rightarrow>
          if v_vote_type existingVote = vote_type
          then Inr (delete_vote d (v_id existingVote), None, removed)
          else Inr (update_vote_type d vote_type (v_id existingVote),
                    Some (v_id existingVote), updated)
      | [] \<Rightarrow>
          (case insert_vote d userId feature_id vote_type of
             Inl e \<Rightarrow> Inl e
           | Inr (d', insertId) \<Rightarrow> Inr (d', Some insertId, created)))"

text \<open>
  The handler, statement by statement. \<open>env1\<close>, \<open>env2\<close> and \<open>env3\<close> are what other sessions
  do to the database between the feature lookup and the vote lookup, between the vote lookup
  and the write, and between the write and the counts query. The result is the database when
  the handler responds, and the response (\<^verbatim>\<open>res.json\<close> without a status is a 200).
\<close>

definition cast_vote_among ::
  "(db \<Rightarrow> db) \<Rightarrow> (db \<Rightarrow> db) \<Rightarrow> (db \<Rightarrow> db) \<Rightarrow>
   db \<Rightarrow> nat \<Rightarrow> nat \<Rightarrow> vote_type \<Rightarrow> db \<times> response" where
  "cast_vote_among env1 env2 env3 d userId feature_id vote_type =
     (case select_feature d feature_id of
        [] \<Rightarrow> (d, 404, Failure ''Feature not found'')
      | feature # _ \<Rightarrow>
          if f_user_id feature = userId
          then (d, 400, Failure ''Cannot vote on your own feature'')
          else if f_status feature = archived
          then (d, 400, Failure ''Cannot vote on archived features'')
          else
            let d1 = env1 d;
                existingVotes = select_user_feature_votes d1 userId feature_id;
                d2 = env2 d1
            in (case cast_vote_write d2 userId feature_id vote_type existingVotes of
                  Inl e \<Rightarrow> (d2, cast_vote_catch e)
                | Inr (d3, voteId, action) \<Rightarrow>
                    let d4 = env3 d3
                    in (d4, 200,
                        Vote_processed voteId action
                          (if action = removed then None else Some vote_type)
                          feature_id (select_vote_counts d4 feature_id))))"

text \<open>The handler running alone.\<close>

definition cast_vote :: "db \<Rightarrow> nat \<Rightarrow> nat \<Rightarrow> vote_type \<Rightarrow> db \<times> response" where
  "cast_vote = cast_vote_among (\<lambda>d. d) (\<lambda>d. d) (\<lambda>d. d)"

subsection \<open>PUT /votes/:id and DELETE /votes/:id\<close>

definition update_vote :: "db \<Rightarrow> nat \<Rightarrow> nat \<Rightarrow> vote_type \<Rightarrow> db \<times> response" where
  "update_vote d voteId userId vote_type =
     (case select_vote_of_user d voteId userId of
        [] \<Rightarrow> (d, 404, Failure ''Vote not found or access denied'')
      | vote # _ \<Rightarrow>
          if v_vote_type vote = vote_type
          then (d, 400, Failure ''Vote type is already set to this value'')
          else
            let d' = update_vote_type d vote_type voteId
            in (d', 200,
                Vote_updated (case select_vote_joined d' voteId of
                                [] \<Rightarrow> None | v # _ \<Rightarrow> Some v)))"

definition remove_vote :: "db \<Rightarrow> nat \<Rightarrow> nat \<Rightarrow> db \<times> response" where
  "remove_vote d voteId userId =
     (case select_vote_of_user d voteId userId of
        [] \<Rightarrow> (d, 404, Failure ''Vote not found or access denied'')
      | vote # _ \<Rightarrow> (delete_vote d voteId, 200, Vote_deleted))"

subsection \<open>POST /votes/bulk\<close>

text \<open>
  JavaScript truthiness of an optional integer field: absent and 0 are falsy. An optional
  vote type is truthy when present (both values are non-empty strings).
\<close>

definition truthy :: "nat option \<Rightarrow> bool" where
  "truthy x = (case x of None \<Rightarrow> False | Some n \<Rightarrow> n \<noteq> 0)"

text \<open>
  One pass of the loop body: the \<^verbatim>\<open>switch\<close> on \<^verbatim>\<open>op.action\<close> inside \<^verbatim>\<open>try\<close>, and the
  \<^verbatim>\<open>catch\<close> that records the error. The result starts as
  \<^verbatim>\<open>{operation: op, success: false}\<close>.
\<close>

definition bulk_step :: "db \<Rightarrow> nat \<Rightarrow> bulk_op \<Rightarrow> db \<times> bulk_result" where
  "bulk_step d userId op =
     (let result = \<lparr>r_operation = op, r_success = False, r_vote_id = None, r_error = None\<rparr>
      in case op_action op of
           create \<Rightarrow>
             (case (op_feature_id op, op_vote_type op) of
                (Some fid, Some t) \<Rightarrow>
                  if truthy (Some fid)
                  then (case insert_vote d userId fid t of
                          Inl opError \<Rightarrow> (d, result\<lparr>r_error := Some opError\<rparr>)
                        | Inr (d', insertId) \<Rightarrow>
                            (d', result\<lparr>r_success := True, r_vote_id := Some insertId\<rparr>))
                  else (d, result)
              | _ \<Rightarrow> (d, result))
         | update \<Rightarrow>
             (case (op_vote_id op, op_vote_type op) of
                (Some vid, Some t) \<Rightarrow>
                  if truthy (Some vid)
                  then (update_vote_type d t vid, result\<lparr>r_success := True\<rparr>)
                  else (d, result)
              | _ \<Rightarrow> (d, result))
         | delete \<Rightarrow>
             (case op_vote_id op of
                Some vid \<Rightarrow>
                  if truthy (Some vid)
                  then (delete_vote d vid, result\<lparr>r_success := True\<rparr>)
                  else (d, result)
              | None \<Rightarrow> (d, result)))"

text \<open>\<^verbatim>\<open>for (const op of operations)\<close>, pushing one result per operation.\<close>

fun bulk_loop :: "db \<Rightarrow> nat \<Rightarrow> bulk_op list \<Rightarrow> db \<times> bulk_result list" where
  "bulk_loop d userId [] = (d, [])"
| "bulk_loop d userId (op # operations) =
     (case bulk_step d userId op of
        (d', result) \<Rightarrow>
          (case bulk_loop d' userId operations of
             (d'', results) \<Rightarrow> (d'', result # results)))"

text \<open>
  The handler: the role check, the loop inside one transaction (a statement that fails is
  undone alone and the loop goes on; the commit is taken to succeed), the summary.
\<close>

definition bulk_votes :: "db \<Rightarrow> nat \<Rightarrow> string \<Rightarrow> bulk_op list \<Rightarrow> db \<times> response" where
  "bulk_votes d userId userRole operations =
     (if userRole \<noteq> ''admin'' then (d, 403, Failure ''Admin access required'')
      else
        case bulk_loop d userId operations of
          (d', results) \<Rightarrow>
            (d', 200,
             Bulk_completed (length (filter r_success results)) (length operations) results))"

subsection \<open>Requests in sequence\<close>

text \<open>The same database when the clock reads \<open>t\<close>.\<close>

definition at_time :: "nat \<Rightarrow> db \<Rightarrow> db" where
  "at_time t d = d\<lparr>now := t\<rparr>"

text \<open>
  The four routes that write votes, with the caller the gateway puts in the headers
  (\<^verbatim>\<open>x-user-id\<close>, \<^verbatim>\<open>x-user-role\<close>) and the fields of the request.
\<close>

datatype request =
    POST_votes nat nat vote_type
  | PUT_votes nat nat vote_type
  | DELETE_votes nat nat
  | POST_votes_bulk nat string "bulk_op list"

definition serve :: "db \<Rightarrow> request \<Rightarrow> db \<times> response" where
  "serve d r =
     (case r of
        POST_votes userId feature_id vote_type \<Rightarrow> cast_vote d userId feature_id vote_type
      | PUT_votes voteId userId vote_type \<Rightarrow> update_vote d voteId userId vote_type
      | DELETE_votes voteId userId \<Rightarrow> remove_vote d voteId userId
      | POST_votes_bulk userId userRole operations \<Rightarrow>
          bulk_votes d userId userRole operations)"

text \<open>Requests served one after another, each at its own time; the database at the end.\<close>

fun serve_all :: "db \<Rightarrow> (nat \<times> request) list \<Rightarrow> db" where
  "serve_all d [] = d"
| "serve_all d ((t, r) # rest) = serve_all (fst (serve (at_time t d) r)) rest"

subsection \<open>Schema constraints and the counter invariant\<close>

text \<open>The primary key of \<^verbatim>\<open>votes\<close>: ids are distinct and below the AUTO_INCREMENT counter.\<close>

definition votes_pk :: "db \<Rightarrow> bool" where
  "votes_pk d \<longleftrightarrow>
     distinct (map v_id (votes d)) \<and> list_all (\<lambda>v. v_id v < votes_auto_increment d) (votes d)"

text \<open>The counters of one feature row agree with the ledger.\<close>

definition counters_match :: "vote list \<Rightarrow> feature \<Rightarrow> bool" where
  "counters_match vs f \<longleftrightarrow>
     upvotes_count f = count_votes vs (f_id f) upvote \<and>
     downvotes_count f = count_votes vs (f_id f) downvote \<and>
     votes_count f = upvotes_count f - downvotes_count f"

definition counters_ok :: "db \<Rightarrow> bool" where
  "counters_ok d \<longleftrightarrow> list_all (counters_match (votes d)) (features d)"

text \<open>The key and the three counters of a feature row.\<close>

definition counters :: "feature \<Rightarrow> nat \<times> int \<times> int \<times> int" where
  "counters f = (f_id f, votes_count f, upvotes_count f, downvotes_count f)"

text \<open>
  A bulk operation that has the fields its action needs and refers to rows that exist: a
  create names a feature that exists, on which the caller (a row of \<^verbatim>\<open>users\<close>) has no vote;
  an update or a delete names a vote that exists.
\<close>

definition bulk_op_valid :: "db \<Rightarrow> nat \<Rightarrow> bulk_op \<Rightarrow> bool" where
  "bulk_op_valid d userId op =
     (case op_action op of
        create \<Rightarrow>
          (case (op_feature_id op, op_vote_type op) of
             (Some fid, Some t) \<Rightarrow>
               fid \<noteq> 0 \<and> userId \<in> set (users d) \<and> fid \<in> f_id ` set (features d) \<and>
               select_user_feature_votes d userId fid = []
           | _ \<Rightarrow> False)
      | update \<Rightarrow>
          (case (op_vote_id op, op_vote_type op) of
             (Some vid, Some t) \<Rightarrow> vid \<noteq> 0 \<and> vid \<in> v_id ` set (votes d)
           | _ \<Rightarrow> False)
      | delete \<Rightarrow>
          (case op_vote_id op of
             Some vid \<Rightarrow> vid \<noteq> 0 \<and> vid \<in> v_id ` set (votes d)
           | None \<Rightarrow> False))"

text \<open>Rows with an id from \<open>n\<close> on belong to user \<open>u\<close>, and the counter has passed \<open>n\<close>.\<close>

definition rows_from :: "nat \<Rightarrow> nat \<Rightarrow> db \<Rightarrow> bool" where
  "rows_from n u d \<longleftrightarrow>
     n \<le> votes_auto_increment d \<and> list_all (\<lambda>v. n \<le> v_id v \<longrightarrow> v_user_id v = u) (votes d)"

subsection \<open>A small database\<close>

text \<open>
  Users 1 to 4. Feature 1 (owner 1, pending) carries an upvote of user 2; feature 2 (owner 1,
  archived) carries a downvote of user 3. The counters agree with the ledger.
\<close>

definition example_db :: db where
  "example_db =
     \<lparr>users = [1, 2, 3, 4],
      features =
        [\<lparr>f_id = 1, f_user_id = 1, f_status = pending,
          votes_count = 1, upvotes_count = 1, downvotes_count = 0, f_updated_at = 3\<rparr>,
         \<lparr>f_id = 2, f_user_id = 1, f_status = archived,
          votes_count = - 1, upvotes_count = 0, downvotes_count = 1, f_updated_at = 4\<rparr>],
      votes =
        [\<lparr>v_id = 1, v_user_id = 2, v_feature_id = 1, v_vote_type = upvote,
          v_created_at = 3, v_updated_at = 3\<rparr>,
         \<lparr>v_id = 2, v_user_id = 3, v_feature_id = 2, v_vote_type = downvote,
          v_created_at = 4, v_updated_at = 4\<rparr>],
      votes_auto_increment = 3,
      now = 9\<rparr>"

text \<open>
  A batch of three for user 4 as administrator: an upvote on feature 1, an update of vote 77
  (there is no such vote), the deletion of vote 1.
\<close>

definition example_batch :: "bulk_op list" where
  "example_batch =
     [\<lparr>op_action = create, op_feature_id = Some 1, op_vote_id = None,
       op_vote_type = Some upvote\<rparr>,
      \<lparr>op_action = update, op_feature_id = None, op_vote_id = Some 77,
       op_vote_type = Some upvote\<rparr>,
      \<lparr>op_action = delete, op_feature_id = None, op_vote_id = Some 1,
       op_vote_type = None\<rparr>]"

text \<open>
  Another session of user 4 that casts the same upvote on feature 1 and commits, as seen by a
  handler that has already read the ledger.
\<close>

definition racing_upvote :: "db \<Rightarrow> db" where
  "racing_upvote d = fst (cast_vote d 4 1 upvote)"

section \<open>Statements and triggers keep the counters in step with the ledger\<close>

lemma recount_feature_fields [simp]:
  "votes (recount_feature d fid) = votes d"
  "users (recount_feature d fid) = users d"
  "votes_auto_increment (recount_feature d fid) = votes_auto_increment d"
  "now (recount_feature d fid) = now d"
  by (simp_all add: recount_feature_def Let_def)

lemma recount_feature_ids [simp]:
  "map f_id (features (recount_feature d fid)) = map f_id (features d)"
  by (simp add: recount_feature_def Let_def)

lemma recount_feature_owner_status [simp]:
  "map f_user_id (features (recount_feature d fid)) = map f_user_id (features d)"
  "map f_status (features (recount_feature d fid)) = map f_status (features d)"
  by (simp_all add: recount_feature_def Let_def)

lemma counters_ok_recount:
  assumes "list_all (\<lambda>f. f_id f \<noteq> fid \<longrightarrow> counters_match (votes d) f) (features d)"
  shows "counters_ok (recount_feature d fid)"
  using assms
  by (auto simp: counters_ok_def recount_feature_def Let_def list_all_iff counters_match_def)

lemma count_votes_filter_other:
  assumes "\<And>v. v \<in> set vs \<Longrightarrow> \<not> P v \<Longrightarrow> v_feature_id v \<noteq> g"
  shows "count_votes (filter P vs) g t = count_votes vs g t"
proof -
  have "filter (\<lambda>v. v_feature_id v = g \<and> v_vote_type v = t) (filter P vs)
        = filter (\<lambda>v. v_feature_id v = g \<and> v_vote_type v = t) vs"
    using assms by (induction vs) auto
  then show ?thesis by (simp add: count_votes_def)
qed

lemma count_votes_map_other:
  assumes "\<And>v. v \<in> set vs \<Longrightarrow> v_feature_id (h v) = v_feature_id v"
    and "\<And>v. v \<in> set vs \<Longrightarrow> v_feature_id v = g \<Longrightarrow> v_vote_type (h v) = v_vote_type v"
  shows "count_votes (map h vs) g t = count_votes vs g t"
  using assms by (induction vs) (auto simp: count_votes_def)

lemma find_pk:
  assumes "distinct (map v_id vs)" "find (\<lambda>v. v_id v = vid) vs = Some OLD"
    "v \<in> set vs" "v_id v = vid"
  shows "v = OLD"
  using assms
  by (induction vs) (auto split: if_splits simp: image_iff)


lemma votes_pk_recount [simp]: "votes_pk (recount_feature d fid) = votes_pk d"
  by (simp add: votes_pk_def)

lemma insert_vote_inv:
  assumes "votes_pk d" "counters_ok d" "insert_vote d uid fid t = Inr (d', i)"
  shows "votes_pk d' \<and> counters_ok d'"
proof -
  define NEW where "NEW = \<lparr>v_id = votes_auto_increment d, v_user_id = uid, v_feature_id = fid,
                   v_vote_type = t, v_created_at = now d, v_updated_at = now d\<rparr>"
  define d1 where "d1 = d\<lparr>votes := votes d @ [NEW],
                   votes_auto_increment := Suc (votes_auto_increment d)\<rparr>"
  from assms(3) have d': "d' = recount_feature d1 fid"
    by (auto simp: insert_vote_def Let_def update_votes_count_after_insert_def NEW_def d1_def
        split: if_splits)
  have pk: "votes_pk d1"
    using assms(1) by (auto simp: votes_pk_def d1_def NEW_def list_all_iff)
  have "list_all (\<lambda>f. f_id f \<noteq> fid \<longrightarrow> counters_match (votes d1) f) (features d1)"
    using assms(2)
    by (auto simp: counters_ok_def list_all_iff d1_def NEW_def counters_match_def count_votes_def)
  then have "counters_ok d'" unfolding d' by (rule counters_ok_recount)
  with pk show ?thesis by (simp add: d')
qed

lemma update_vote_type_inv:
  assumes "votes_pk d" "counters_ok d"
  shows "votes_pk (update_vote_type d t vid) \<and> counters_ok (update_vote_type d t vid)"
proof (cases "find (\<lambda>v. v_id v = vid) (votes d)")
  case None
  then show ?thesis using assms by (simp add: update_vote_type_def)
next
  case (Some OLD)
  define h where "h = (\<lambda>v. if v_id v = vid then set_vote t (now d) v else v)"
  define d1 where "d1 = d\<lparr>votes := map h (votes d)\<rparr>"
  have dist: "distinct (map v_id (votes d))" using assms(1) by (simp add: votes_pk_def)
  have only: "\<And>v. v \<in> set (votes d) \<Longrightarrow> v_id v = vid \<Longrightarrow> v = OLD"
    using find_pk [OF dist Some] by blast
  have hid: "v_id \<circ> h = v_id"
    by (auto simp: h_def set_vote_def)
  have pk: "votes_pk d1"
    using assms(1) by (simp add: votes_pk_def d1_def list_all_iff hid) (auto simp: h_def set_vote_def)
  have res: "update_vote_type d t vid =
        (if v_vote_type OLD \<noteq> t then recount_feature d1 (v_feature_id OLD) else d1)"
    using Some
    by (simp add: update_vote_type_def Let_def update_votes_count_after_update_def
        d1_def h_def set_vote_def)
  show ?thesis
  proof (cases "v_vote_type OLD = t")
    case True
    have "\<And>g u. count_votes (map h (votes d)) g u = count_votes (votes d) g u"
      using only True by (intro count_votes_map_other) (auto simp: h_def set_vote_def)
    then have "counters_ok d1"
      using assms(2) by (simp add: counters_ok_def d1_def counters_match_def list_all_iff)
    with pk True res show ?thesis by simp
  next
    case False
    have "\<And>g u. g \<noteq> v_feature_id OLD \<Longrightarrow>
            count_votes (map h (votes d)) g u = count_votes (votes d) g u"
      using only by (intro count_votes_map_other) (auto simp: h_def set_vote_def)
    then have "list_all (\<lambda>f. f_id f \<noteq> v_feature_id OLD \<longrightarrow> counters_match (votes d1) f)
                 (features d1)"
      using assms(2) by (simp add: counters_ok_def d1_def counters_match_def list_all_iff)
    then have "counters_ok (recount_feature d1 (v_feature_id OLD))"
      by (rule counters_ok_recount)
    with pk False res show ?thesis by simp
  qed
qed

lemma delete_vote_inv:
  assumes "votes_pk d" "counters_ok d"
  shows "votes_pk (delete_vote d vid) \<and> counters_ok (delete_vote d vid)"
proof (cases "find (\<lambda>v. v_id v = vid) (votes d)")
  case None
  then show ?thesis using assms by (simp add: delete_vote_def)
next
  case (Some OLD)
  define d1 where "d1 = d\<lparr>votes := filter (\<lambda>v. v_id v \<noteq> vid) (votes d)\<rparr>"
  have dist: "distinct (map v_id (votes d))" using assms(1) by (simp add: votes_pk_def)
  have only: "\<And>v. v \<in> set (votes d) \<Longrightarrow> v_id v = vid \<Longrightarrow> v = OLD"
    using find_pk [OF dist Some] by blast
  have pk: "votes_pk d1"
    using assms(1) by (auto simp: votes_pk_def d1_def list_all_iff distinct_map_filter)
  have res: "delete_vote d vid = recount_feature d1 (v_feature_id OLD)"
    using Some by (simp add: delete_vote_def Let_def update_votes_count_after_delete_def d1_def)
  have "\<And>g u. g \<noteq> v_feature_id OLD \<Longrightarrow>
          count_votes (filter (\<lambda>v. v_id v \<noteq> vid) (votes d)) g u = count_votes (votes d) g u"
    using only by (intro count_votes_filter_other) auto
  then have "list_all (\<lambda>f. f_id f \<noteq> v_feature_id OLD \<longrightarrow> counters_match (votes d1) f)
               (features d1)"
    using assms(2) by (simp add: counters_ok_def d1_def counters_match_def list_all_iff)
  then have "counters_ok (recount_feature d1 (v_feature_id OLD))"
    by (rule counters_ok_recount)
  with pk res show ?thesis by simp
qed


lemma cast_vote_write_inv:
  assumes "votes_pk d" "counters_ok d"
    and "cast_vote_write d userId feature_id vote_type existingVotes = Inr (d', voteId, a)"
  shows "votes_pk d' \<and> counters_ok d'"
proof (cases existingVotes)
  case Nil
  with assms(3) obtain i where "insert_vote d userId feature_id vote_type = Inr (d', i)"
    by (auto simp: cast_vote_write_def split: sum.splits)
  then show ?thesis using insert_vote_inv assms(1,2) by blast
next
  case (Cons existingVote rest)
  with assms(3) have "d' = delete_vote d (v_id existingVote) \<or>
      d' = update_vote_type d vote_type (v_id existingVote)"
    by (auto simp: cast_vote_write_def split: if_splits)
  then show ?thesis
    using delete_vote_inv [OF assms(1,2)] update_vote_type_inv [OF assms(1,2)] by auto
qed

lemma cast_vote_inv:
  assumes "votes_pk d" "counters_ok d"
  shows "votes_pk (fst (cast_vote d userId feature_id vote_type)) \<and>
         counters_ok (fst (cast_vote d userId feature_id vote_type))"
  using assms cast_vote_write_inv [OF assms]
  by (auto simp: cast_vote_def cast_vote_among_def Let_def split: list.splits sum.splits)

lemma update_vote_inv:
  assumes "votes_pk d" "counters_ok d"
  shows "votes_pk (fst (update_vote d voteId userId vote_type)) \<and>
         counters_ok (fst (update_vote d voteId userId vote_type))"
  using assms update_vote_type_inv [OF assms]
  by (auto simp: update_vote_def Let_def split: list.splits)

lemma remove_vote_inv:
  assumes "votes_pk d" "counters_ok d"
  shows "votes_pk (fst (remove_vote d voteId userId)) \<and>
         counters_ok (fst (remove_vote d voteId userId))"
  using assms delete_vote_inv [OF assms]
  by (auto simp: remove_vote_def split: list.splits)

lemma bulk_step_inv:
  assumes "votes_pk d" "counters_ok d"
  shows "votes_pk (fst (bulk_step d userId op)) \<and> counters_ok (fst (bulk_step d userId op))"
proof (cases "op_action op")
  case create
  then show ?thesis
    using assms insert_vote_inv [OF assms]
    by (auto simp: bulk_step_def Let_def split: option.splits sum.splits)
next
  case update
  then show ?thesis
    using assms update_vote_type_inv [OF assms]
    by (auto simp: bulk_step_def Let_def split: option.splits)
next
  case delete
  then show ?thesis
    using assms delete_vote_inv [OF assms]
    by (auto simp: bulk_step_def Let_def split: option.splits)
qed

lemma bulk_loop_inv:
  "votes_pk d \<Longrightarrow> counters_ok d \<Longrightarrow>
   votes_pk (fst (bulk_loop d userId operations)) \<and>
   counters_ok (fst (bulk_loop d userId operations))"
proof (induction operations arbitrary: d)
  case Nil
  then show ?case by simp
next
  case (Cons op operations)
  obtain d1 r where step: "bulk_step d userId op = (d1, r)" by (cases "bulk_step d userId op")
  with bulk_step_inv [OF Cons.prems, of userId op] have "votes_pk d1" "counters_ok d1" by simp_all
  from Cons.IH [OF this] show ?case
    using step by (auto split: prod.splits)
qed

lemma bulk_votes_inv:
  assumes "votes_pk d" "counters_ok d"
  shows "votes_pk (fst (bulk_votes d userId userRole operations)) \<and>
         counters_ok (fst (bulk_votes d userId userRole operations))"
  using assms bulk_loop_inv [OF assms, of userId operations]
  by (auto simp: bulk_votes_def split: prod.splits)

lemma at_time_inv [simp]:
  "votes_pk (at_time t d) = votes_pk d" "counters_ok (at_time t d) = counters_ok d"
  by (simp_all add: at_time_def votes_pk_def counters_ok_def)

lemma serve_inv:
  assumes "votes_pk d" "counters_ok d"
  shows "votes_pk (fst (serve d r)) \<and> counters_ok (fst (serve d r))"
  using cast_vote_inv [OF assms] update_vote_inv [OF assms] remove_vote_inv [OF assms]
    bulk_votes_inv [OF assms]
  by (cases r) (simp_all add: serve_def)

lemma serve_all_inv:
  "votes_pk d \<Longrightarrow> counters_ok d \<Longrightarrow>
   votes_pk (serve_all d requests) \<and> counters_ok (serve_all d requests)"
proof (induction requests arbitrary: d)
  case Nil
  then show ?case by simp
next
  case (Cons tr requests)
  obtain t r where tr: "tr = (t, r)" by (cases tr)
  have "votes_pk (at_time t d)" "counters_ok (at_time t d)"
    using Cons.prems by simp_all
  from serve_inv [OF this, of r] Cons.IH show ?case
    by (simp add: tr)
qed

section \<open>What the statements do to the ledger\<close>

lemma votes_delete_vote:
  "votes (delete_vote d vid) = filter (\<lambda>v. v_id v \<noteq> vid) (votes d)"
proof (cases "find (\<lambda>v. v_id v = vid) (votes d)")
  case None
  then have "\<And>v. v \<in> set (votes d) \<Longrightarrow> v_id v \<noteq> vid"
    by (auto simp: find_None_iff)
  with None show ?thesis by (simp add: delete_vote_def)
next
  case (Some OLD)
  then show ?thesis
    by (simp add: delete_vote_def Let_def update_votes_count_after_delete_def)
qed

lemma votes_update_vote_type:
  "votes (update_vote_type d t vid) =
     map (\<lambda>v. if v_id v = vid then set_vote t (now d) v else v) (votes d)"
proof (cases "find (\<lambda>v. v_id v = vid) (votes d)")
  case None
  then have "\<And>v. v \<in> set (votes d) \<Longrightarrow> v_id v \<noteq> vid"
    by (auto simp: find_None_iff)
  then have "map (\<lambda>v. if v_id v = vid then set_vote t (now d) v else v) (votes d) = votes d"
    by (simp add: map_idI)
  with None show ?thesis by (simp add: update_vote_type_def)
next
  case (Some OLD)
  then show ?thesis
    by (simp add: update_vote_type_def Let_def update_votes_count_after_update_def)
qed

lemma pk_same_id:
  assumes "distinct (map v_id vs)" "e \<in> set vs" "v \<in> set vs"
  shows "v_id v = v_id e \<longleftrightarrow> v = e"
  using assms by (metis distinct_map inj_onD)

lemma votes_insert_vote:
  assumes "insert_vote d uid fid t = Inr (d', i)"
  shows "i = votes_auto_increment d \<and>
         votes d' = votes d @ [\<lparr>v_id = votes_auto_increment d, v_user_id = uid, v_feature_id = fid,
                   v_vote_type = t, v_created_at = now d, v_updated_at = now d\<rparr>] \<and>
         votes_auto_increment d' = Suc (votes_auto_increment d)"
  using assms
  by (auto simp: insert_vote_def Let_def update_votes_count_after_insert_def split: if_splits)

lemma insert_vote_accepts:
  assumes "uid \<in> set (users d)" "fid \<in> f_id ` set (features d)"
    "select_user_feature_votes d uid fid = []"
  shows "\<exists>d'. insert_vote d uid fid t = Inr (d', votes_auto_increment d)"
  using assms by (simp add: insert_vote_def Let_def)

lemma select_feature_found:
  assumes "select_feature d fid = feature # fs"
  shows "fid \<in> f_id ` set (features d)"
proof -
  have "feature \<in> set (select_feature d fid)" using assms by simp
  then show ?thesis by (auto simp: select_feature_def)
qed

lemma cast_vote_passes:
  assumes "select_feature d feature_id = feature # fs"
    and "f_user_id feature \<noteq> userId" and "f_status feature \<noteq> archived"
  shows "cast_vote d userId feature_id vote_type =
      (case cast_vote_write d userId feature_id vote_type
              (select_user_feature_votes d userId feature_id) of
         Inl e \<Rightarrow> (d, cast_vote_catch e)
       | Inr (d3, voteId, action) \<Rightarrow>
           (d3, 200, Vote_processed voteId action
                      (if action = removed then None else Some vote_type)
                      feature_id (select_vote_counts d3 feature_id)))"
  using assms
  by (simp add: cast_vote_def cast_vote_among_def Let_def split: sum.splits)

lemma features_recount_feature:
  "features (recount_feature d fid) =
     map (\<lambda>f. if f_id f = fid
               then f\<lparr>votes_count := count_votes (votes d) fid upvote - count_votes (votes d) fid downvote,
                      upvotes_count := count_votes (votes d) fid upvote,
                      downvotes_count := count_votes (votes d) fid downvote,
                      f_updated_at := now d\<rparr>
               else f) (features d)"
  by (simp add: recount_feature_def Let_def)

lemma insert_vote_result:
  assumes "uid \<in> set (users d)" "fid \<in> f_id ` set (features d)"
    "select_user_feature_votes d uid fid = []"
  shows "insert_vote d uid fid t =
     Inr (recount_feature
            (d\<lparr>votes := votes d @ [\<lparr>v_id = votes_auto_increment d, v_user_id = uid,
                                     v_feature_id = fid, v_vote_type = t,
                                     v_created_at = now d, v_updated_at = now d\<rparr>],
               votes_auto_increment := Suc (votes_auto_increment d)\<rparr>) fid,
          votes_auto_increment d)"
  using assms by (simp add: insert_vote_def Let_def update_votes_count_after_insert_def)

lemma delete_vote_result:
  assumes "find (\<lambda>v. v_id v = vid) (votes d) = Some OLD"
  shows "delete_vote d vid =
     recount_feature (d\<lparr>votes := filter (\<lambda>v. v_id v \<noteq> vid) (votes d)\<rparr>) (v_feature_id OLD)"
  using assms by (simp add: delete_vote_def Let_def update_votes_count_after_delete_def)

lemma find_fresh:
  assumes "list_all (\<lambda>v. v_id v < n) vs" "v_id NEW = n"
  shows "find (\<lambda>v. v_id v = n) (vs @ [NEW]) = Some NEW"
    and "filter (\<lambda>v. v_id v \<noteq> n) (vs @ [NEW]) = vs"
  using assms by (induction vs) auto

lemma filter_map_commute:
  "(\<And>x. P (h x) = P x) \<Longrightarrow> filter P (map h xs) = map h (filter P xs)"
  by (induction xs) auto

lemma select_feature_recount:
  "select_feature (recount_feature d fid) g =
     map (\<lambda>f. if f_id f = fid
               then f\<lparr>votes_count := count_votes (votes d) fid upvote - count_votes (votes d) fid downvote,
                      upvotes_count := count_votes (votes d) fid upvote,
                      downvotes_count := count_votes (votes d) fid downvote,
                      f_updated_at := now d\<rparr>
               else f) (select_feature d g)"
  unfolding select_feature_def features_recount_feature
  by (rule filter_map_commute) simp

lemma auto_increment_update_vote_type [simp]:
  "votes_auto_increment (update_vote_type d t vid) = votes_auto_increment d"
  by (simp add: update_vote_type_def Let_def update_votes_count_after_update_def
      split: option.splits)

lemma auto_increment_delete_vote [simp]:
  "votes_auto_increment (delete_vote d vid) = votes_auto_increment d"
  by (simp add: delete_vote_def Let_def update_votes_count_after_delete_def
      split: option.splits)

lemma bulk_step_rows_from:
  assumes "rows_from n userId d"
  shows "rows_from n userId (fst (bulk_step d userId op))"
proof (cases "op_action op")
  case create
  then have "fst (bulk_step d userId op) = d \<or>
      (\<exists>fid t i. insert_vote d userId fid t = Inr (fst (bulk_step d userId op), i))"
    by (simp add: bulk_step_def Let_def split: option.splits sum.splits) blast
  then show ?thesis
  proof
    assume "fst (bulk_step d userId op) = d"
    then show ?thesis using assms by simp
  next
    assume "\<exists>fid t i. insert_vote d userId fid t = Inr (fst (bulk_step d userId op), i)"
    then obtain fid t i
      where ins: "insert_vote d userId fid t = Inr (fst (bulk_step d userId op), i)"
      by blast
    show ?thesis
      using assms votes_insert_vote [OF ins] by (simp add: rows_from_def)
  qed
next
  case update
  then show ?thesis
    using assms
    by (auto simp: bulk_step_def Let_def rows_from_def votes_update_vote_type list_all_iff
        set_vote_def split: option.splits)
next
  case delete
  then show ?thesis
    using assms
    by (auto simp: bulk_step_def Let_def rows_from_def votes_delete_vote list_all_iff
        split: option.splits)
qed

lemma bulk_loop_rows_from:
  "rows_from n userId d \<Longrightarrow> rows_from n userId (fst (bulk_loop d userId operations))"
proof (induction operations arbitrary: d)
  case Nil
  then show ?case by simp
next
  case (Cons op operations)
  obtain d1 r where step: "bulk_step d userId op = (d1, r)" by (cases "bulk_step d userId op")
  with bulk_step_rows_from [OF Cons.prems, of op] have "rows_from n userId d1" by simp
  from Cons.IH [OF this] show ?case
    using step by (auto split: prod.splits)
qed

lemma bulk_votes_rows_from:
  assumes "votes_pk d"
  shows "rows_from (votes_auto_increment d) userId
           (fst (bulk_votes d userId userRole operations))"
proof -
  have start: "rows_from (votes_auto_increment d) userId d"
    using assms by (auto simp: rows_from_def votes_pk_def list_all_iff)
  show ?thesis
    using start bulk_loop_rows_from [OF start, of operations]
    by (auto simp: bulk_votes_def split: prod.splits)
qed

lemma bulk_op_valid_success:
  assumes "bulk_op_valid d userId op"
  shows "r_success (snd (bulk_step d userId op))"
proof (cases "op_action op")
  case create
  then show ?thesis
    using assms
    by (auto simp: bulk_op_valid_def bulk_step_def truthy_def insert_vote_result
        split: option.splits)
next
  case update
  then show ?thesis
    using assms by (auto simp: bulk_op_valid_def bulk_step_def truthy_def split: option.splits)
next
  case delete
  then show ?thesis
    using assms by (auto simp: bulk_op_valid_def bulk_step_def truthy_def split: option.splits)
qed

lemma bulk_loop_operations:
  "map r_operation (snd (bulk_loop d userId operations)) = operations"
proof (induction operations arbitrary: d)
  case Nil
  then show ?case by simp
next
  case (Cons op operations)
  have "r_operation (snd (bulk_step d userId op)) = op"
    by (cases "op_action op")
      (auto simp: bulk_step_def Let_def split: option.splits sum.splits)
  with Cons.IH show ?case
    by (auto split: prod.splits) (metis snd_conv)+
qed

lemma update_vote_type_missing:
  assumes "vid \<notin> v_id ` set (votes d)"
  shows "update_vote_type d t vid = d"
proof -
  have "find (\<lambda>v. v_id v = vid) (votes d) = None"
    using assms by (auto simp: find_None_iff)
  then show ?thesis by (simp add: update_vote_type_def)
qed

text \<open>The definitions that evaluate a handler on a concrete database.\<close>

lemmas model_defs =
  bulk_votes_def bulk_step_def truthy_def insert_vote_def update_vote_type_def delete_vote_def
  update_votes_count_after_insert_def update_votes_count_after_update_def
  update_votes_count_after_delete_def recount_feature_def count_votes_def
  select_user_feature_votes_def select_feature_def select_vote_of_user_def
  select_vote_joined_def select_vote_counts_def set_vote_def
  cast_vote_def cast_vote_among_def cast_vote_write_def cast_vote_catch_def
  update_vote_def remove_vote_def Let_def

section \<open>The claims\<close>

subsection \<open>C1: counters equal the ledger aggregate after every vote operation\<close>

text \<open>
  C1. In a database whose vote ids are a primary key and whose feature counters agree with
  the ledger (for every feature row, \<^verbatim>\<open>upvotes_count\<close> is the number of its upvote rows,
  \<^verbatim>\<open>downvotes_count\<close> the number of its downvote rows, \<^verbatim>\<open>votes_count\<close> their difference),
  the same holds again after POST /votes (whichever of create, update, remove or rejection it
  takes), after PUT /votes/:id, after DELETE /votes/:id, after each single operation of a bulk
  batch and after the whole batch; hence after any sequence of such requests, served one
  after another at any times.
\<close>

theorem C1_counters_equal_ledger:
  assumes "votes_pk d" and "counters_ok d"
  shows "(votes_pk (fst (cast_vote d userId feature_id vote_type)) \<and>
          counters_ok (fst (cast_vote d userId feature_id vote_type))) \<and>
         (votes_pk (fst (update_vote d voteId userId vote_type)) \<and>
          counters_ok (fst (update_vote d voteId userId vote_type))) \<and>
         (votes_pk (fst (remove_vote d voteId userId)) \<and>
          counters_ok (fst (remove_vote d voteId userId))) \<and>
         (votes_pk (fst (bulk_step d userId op)) \<and>
          counters_ok (fst (bulk_step d userId op))) \<and>
         (votes_pk (fst (bulk_votes d userId userRole operations)) \<and>
          counters_ok (fst (bulk_votes d userId userRole operations))) \<and>
         (votes_pk (serve_all d requests) \<and> counters_ok (serve_all d requests))"
  using cast_vote_inv [OF assms] update_vote_inv [OF assms] remove_vote_inv [OF assms]
    bulk_step_inv [OF assms] bulk_votes_inv [OF assms] serve_all_inv [OF assms]
  by blast

theorem C1_counters_equal_ledger_witness:
  "votes_pk example_db \<and> counters_ok example_db \<and>
   counters_ok (fst (cast_vote example_db 4 1 downvote)) \<and>
   counters_ok (fst (update_vote example_db 2 3 upvote)) \<and>
   counters_ok (fst (remove_vote example_db 2 3)) \<and>
   counters_ok (fst (bulk_votes example_db 1 ''admin''
      [\<lparr>op_action = create, op_feature_id = Some 2, op_vote_id = None,
        op_vote_type = Some upvote\<rparr>,
       \<lparr>op_action = delete, op_feature_id = None, op_vote_id = Some 1,
        op_vote_type = None\<rparr>])) \<and>
   counters_ok (serve_all example_db
      [(10, POST_votes 4 1 downvote), (11, PUT_votes 1 2 downvote),
       (12, POST_votes_bulk 4 ''admin'' example_batch), (13, DELETE_votes 2 3)])"
proof -
  have pk: "votes_pk example_db"
    by (simp add: votes_pk_def example_db_def)
  have ok: "counters_ok example_db"
    by (simp add: counters_ok_def example_db_def counters_match_def count_votes_def)
  show ?thesis
    using pk ok
      C1_counters_equal_ledger [OF pk ok, where userId = 4 and feature_id = 1
        and vote_type = downvote]
      C1_counters_equal_ledger [OF pk ok, where userId = 3 and voteId = 2
        and vote_type = upvote]
      C1_counters_equal_ledger [OF pk ok, where userId = 1 and userRole = "''admin''"]
    by blast
qed

subsection \<open>C2: the three-way branch of POST /votes\<close>

text \<open>
  C2. Let the feature exist, be not archived and belong to someone else, in a database whose
  vote ids are a primary key. Then POST /votes answers 200 and
  \<^item> with no vote of the caller on the feature, and the caller a row of \<^verbatim>\<open>users\<close> (the
    foreign key of \<^verbatim>\<open>votes.user_id\<close>), appends a row with the given vote type (its id the
    next AUTO_INCREMENT value) and reports action \<^verbatim>\<open>created\<close>;
  \<^item> with a vote of the same type, removes exactly that row and reports action \<^verbatim>\<open>removed\<close>
    with vote type null;
  \<^item> with a vote of the other type, changes the type (and \<^verbatim>\<open>updated_at\<close>) of exactly that row,
    where it stands, and reports action \<^verbatim>\<open>updated\<close>.
  The counts reported are those of the ledger after the write.
\<close>

theorem C2_cast_vote_three_way:
  assumes "select_feature d feature_id = feature # fs"
    and "f_status feature \<noteq> archived" and "f_user_id feature \<noteq> userId"
    and "votes_pk d"
  shows
    "(select_user_feature_votes d userId feature_id = [] \<and> userId \<in> set (users d) \<longrightarrow>
        snd (cast_vote d userId feature_id vote_type) =
          (200, Vote_processed (Some (votes_auto_increment d)) created (Some vote_type) feature_id
                  (select_vote_counts (fst (cast_vote d userId feature_id vote_type)) feature_id)) \<and>
        votes (fst (cast_vote d userId feature_id vote_type)) =
          votes d @ [\<lparr>v_id = votes_auto_increment d, v_user_id = userId,
                       v_feature_id = feature_id, v_vote_type = vote_type,
                       v_created_at = now d, v_updated_at = now d\<rparr>]) \<and>
     (select_user_feature_votes d userId feature_id = existingVote # rest \<and>
      v_vote_type existingVote = vote_type \<longrightarrow>
        snd (cast_vote d userId feature_id vote_type) =
          (200, Vote_processed None removed None feature_id
                  (select_vote_counts (fst (cast_vote d userId feature_id vote_type)) feature_id)) \<and>
        votes (fst (cast_vote d userId feature_id vote_type)) =
          filter (\<lambda>v. v \<noteq> existingVote) (votes d)) \<and>
     (select_user_feature_votes d userId feature_id = existingVote # rest \<and>
      v_vote_type existingVote \<noteq> vote_type \<longrightarrow>
        snd (cast_vote d userId feature_id vote_type) =
          (200, Vote_processed (Some (v_id existingVote)) updated (Some vote_type) feature_id
                  (select_vote_counts (fst (cast_vote d userId feature_id vote_type)) feature_id)) \<and>
        votes (fst (cast_vote d userId feature_id vote_type)) =
          map (\<lambda>v. if v = existingVote
                    then v\<lparr>v_vote_type := vote_type, v_updated_at := now d\<rparr> else v)
              (votes d))"
proof -
  have dist: "distinct (map v_id (votes d))" using assms(4) by (simp add: votes_pk_def)
  note gate = cast_vote_passes [OF assms(1,3,2)]
  have new: ?thesis if none: "select_user_feature_votes d userId feature_id = []"
    and usr: "userId \<in> set (users d)"
  proof -
    obtain d' where ins: "insert_vote d userId feature_id vote_type
        = Inr (d', votes_auto_increment d)"
      using insert_vote_accepts [OF usr select_feature_found [OF assms(1)] none] by blast
    show ?thesis
      using votes_insert_vote [OF ins] none
      by (simp add: gate cast_vote_write_def ins)
  qed
  have old: ?thesis if some: "select_user_feature_votes d userId feature_id = existingVote # rest"
  proof -
    have "existingVote \<in> set (select_user_feature_votes d userId feature_id)"
      using some by simp
    then have mem: "existingVote \<in> set (votes d)"
      by (simp add: select_user_feature_votes_def)
    have same: "\<And>v. v \<in> set (votes d) \<Longrightarrow> v_id v = v_id existingVote \<longleftrightarrow> v = existingVote"
      using pk_same_id [OF dist mem] by blast
    have del: "filter (\<lambda>v. v_id v \<noteq> v_id existingVote) (votes d) =
               filter (\<lambda>v. v \<noteq> existingVote) (votes d)"
      using same by (intro filter_cong) auto
    have upd: "map (\<lambda>v. if v_id v = v_id existingVote then set_vote vote_type (now d) v else v)
                 (votes d) =
               map (\<lambda>v. if v = existingVote
                    then v\<lparr>v_vote_type := vote_type, v_updated_at := now d\<rparr> else v) (votes d)"
      using same by (intro map_cong) (auto simp: set_vote_def)
    show ?thesis
      using some del upd
      by (simp add: gate cast_vote_write_def votes_delete_vote votes_update_vote_type)
  qed
  show ?thesis
  proof (cases "select_user_feature_votes d userId feature_id")
    case Nil
    show ?thesis
    proof (cases "userId \<in> set (users d)")
      case True
      with Nil show ?thesis by (rule new)
    next
      case False
      with Nil show ?thesis by simp
    qed
  next
    case (Cons a list)
    show ?thesis
    proof (cases "select_user_feature_votes d userId feature_id = existingVote # rest")
      case True
      then show ?thesis by (rule old)
    next
      case False
      with Cons show ?thesis by auto
    qed
  qed
qed


theorem C2_cast_vote_three_way_witness:
  "(snd (cast_vote example_db 4 1 downvote) =
      (200, Vote_processed (Some 3) created (Some downvote) 1 (1, 1, 0)) \<and>
    votes (fst (cast_vote example_db 4 1 downvote)) =
      votes example_db @ [\<lparr>v_id = 3, v_user_id = 4, v_feature_id = 1, v_vote_type = downvote,
                            v_created_at = 9, v_updated_at = 9\<rparr>]) \<and>
   (snd (cast_vote example_db 2 1 upvote) = (200, Vote_processed None removed None 1 (0, 0, 0)) \<and>
    votes (fst (cast_vote example_db 2 1 upvote)) =
      [\<lparr>v_id = 2, v_user_id = 3, v_feature_id = 2, v_vote_type = downvote,
        v_created_at = 4, v_updated_at = 4\<rparr>]) \<and>
   (snd (cast_vote example_db 2 1 downvote) =
      (200, Vote_processed (Some 1) updated (Some downvote) 1 (0, 1, - 1)) \<and>
    votes (fst (cast_vote example_db 2 1 downvote)) =
      [\<lparr>v_id = 1, v_user_id = 2, v_feature_id = 1, v_vote_type = downvote,
        v_created_at = 3, v_updated_at = 9\<rparr>,
       \<lparr>v_id = 2, v_user_id = 3, v_feature_id = 2, v_vote_type = downvote,
        v_created_at = 4, v_updated_at = 4\<rparr>])"
proof -
  let ?feature = "\<lparr>f_id = 1, f_user_id = 1, f_status = pending,
       votes_count = 1, upvotes_count = 1, downvotes_count = 0, f_updated_at = 3\<rparr>"
  let ?existing = "\<lparr>v_id = 1, v_user_id = 2, v_feature_id = 1, v_vote_type = upvote,
          v_created_at = 3, v_updated_at = 3\<rparr>"
  have sel: "select_feature example_db 1 = ?feature # []"
    by (simp add: select_feature_def example_db_def)
  have st: "f_status ?feature \<noteq> archived" by simp
  have o4: "f_user_id ?feature \<noteq> 4" and o2: "f_user_id ?feature \<noteq> 2" by simp_all
  have u4: "4 \<in> set (users example_db)"
    by (simp add: example_db_def)
  have pk: "votes_pk example_db" by (simp add: votes_pk_def example_db_def)
  have none: "select_user_feature_votes example_db 4 1 = []"
    by (simp add: select_user_feature_votes_def example_db_def)
  have some: "select_user_feature_votes example_db 2 1 = ?existing # []"
    by (simp add: select_user_feature_votes_def example_db_def)
  have vs: "votes example_db = [?existing,
       \<lparr>v_id = 2, v_user_id = 3, v_feature_id = 2, v_vote_type = downvote,
        v_created_at = 4, v_updated_at = 4\<rparr>]"
    and inc: "votes_auto_increment example_db = 3" and clock: "now example_db = 9"
    by (simp_all add: example_db_def)
  have a: "snd (cast_vote example_db 4 1 downvote) =
      (200, Vote_processed (Some 3) created (Some downvote) 1 (1, 1, 0)) \<and>
    votes (fst (cast_vote example_db 4 1 downvote)) =
      votes example_db @ [\<lparr>v_id = 3, v_user_id = 4, v_feature_id = 1, v_vote_type = downvote,
                            v_created_at = 9, v_updated_at = 9\<rparr>]"
    using C2_cast_vote_three_way [OF sel st o4 pk, where vote_type = downvote] none u4
    by (simp add: select_vote_counts_def count_votes_def vs inc clock)
  have b: "snd (cast_vote example_db 2 1 upvote) =
      (200, Vote_processed None removed None 1 (0, 0, 0)) \<and>
    votes (fst (cast_vote example_db 2 1 upvote)) =
      [\<lparr>v_id = 2, v_user_id = 3, v_feature_id = 2, v_vote_type = downvote,
        v_created_at = 4, v_updated_at = 4\<rparr>]"
    using C2_cast_vote_three_way [OF sel st o2 pk, where vote_type = upvote
        and existingVote = ?existing and rest = "[]"] some
    by (simp add: select_vote_counts_def count_votes_def vs)
  have c: "snd (cast_vote example_db 2 1 downvote) =
      (200, Vote_processed (Some 1) updated (Some downvote) 1 (0, 1, - 1)) \<and>
    votes (fst (cast_vote example_db 2 1 downvote)) =
      [\<lparr>v_id = 1, v_user_id = 2, v_feature_id = 1, v_vote_type = downvote,
        v_created_at = 3, v_updated_at = 9\<rparr>,
       \<lparr>v_id = 2, v_user_id = 3, v_feature_id = 2, v_vote_type = downvote,
        v_created_at = 4, v_updated_at = 4\<rparr>]"
    using C2_cast_vote_three_way [OF sel st o2 pk, where vote_type = downvote
        and existingVote = ?existing and rest = "[]"] some
    by (simp add: select_vote_counts_def count_votes_def vs clock)
  from a b c show ?thesis by blast
qed

subsection \<open>C3: editing and removing a vote on an archived feature\<close>

text \<open>
  C3, evaluated where the code departs from it. Feature 2 is archived and vote 2 on it
  belongs to user 3. PUT /votes/2 by user 3 with the other vote type answers 200, changes the
  row and the feature's counters; DELETE /votes/2 by user 3 answers 200 and removes the row.
  Neither handler reads the feature. POST /votes by the same user on the same feature, which
  would make the same change, is turned away with "Cannot vote on archived features".
\<close>

theorem C3_archived_vote_edit_accepted:
  "map f_status (select_feature example_db 2) = [archived] \<and>
   select_vote_of_user example_db 2 3 =
     [\<lparr>v_id = 2, v_user_id = 3, v_feature_id = 2, v_vote_type = downvote,
       v_created_at = 4, v_updated_at = 4\<rparr>] \<and>
   snd (update_vote example_db 2 3 upvote) =
     (200, Vote_updated (Some \<lparr>v_id = 2, v_user_id = 3, v_feature_id = 2,
                               v_vote_type = upvote, v_created_at = 4, v_updated_at = 9\<rparr>)) \<and>
   select_vote_of_user (fst (update_vote example_db 2 3 upvote)) 2 3 =
     [\<lparr>v_id = 2, v_user_id = 3, v_feature_id = 2, v_vote_type = upvote,
       v_created_at = 4, v_updated_at = 9\<rparr>] \<and>
   map counters (features (fst (update_vote example_db 2 3 upvote))) =
     [(1, 1, 1, 0), (2, 1, 1, 0)] \<and>
   snd (remove_vote example_db 2 3) = (200, Vote_deleted) \<and>
   select_vote_of_user (fst (remove_vote example_db 2 3)) 2 3 = [] \<and>
   map counters (features (fst (remove_vote example_db 2 3))) =
     [(1, 1, 1, 0), (2, 0, 0, 0)] \<and>
   cast_vote example_db 3 2 upvote =
     (example_db, 400, Failure ''Cannot vote on archived features'')"
  by (simp add: model_defs counters_def example_db_def)

subsection \<open>C4: an insert that the unique key rejects\<close>

text \<open>
  C4 (as amended). POST /votes has passed its checks and found no vote of the caller on the
  feature; before its INSERT runs, another session has committed a vote for the same user and
  feature. Then the INSERT is rejected by the key \<^verbatim>\<open>unique_user_feature_vote\<close>, the handler
  does not read the ledger again and does not try a second time: its catch block answers
  500 "Internal server error", and the database is the one the other session left.
\<close>

theorem C4_duplicate_insert_not_retried:
  assumes "select_feature d feature_id = feature # fs"
    and "f_user_id feature \<noteq> userId" and "f_status feature \<noteq> archived"
    and "select_user_feature_votes (env1 d) userId feature_id = []"
    and "userId \<in> set (users (env2 (env1 d)))"
    and "feature_id \<in> f_id ` set (features (env2 (env1 d)))"
    and "select_user_feature_votes (env2 (env1 d)) userId feature_id \<noteq> []"
  shows "insert_vote (env2 (env1 d)) userId feature_id vote_type = Inl ER_DUP_ENTRY \<and>
         cast_vote_among env1 env2 env3 d userId feature_id vote_type =
           (env2 (env1 d), 500, Failure ''Internal server error'')"
proof -
  have dup: "insert_vote (env2 (env1 d)) userId feature_id vote_type = Inl ER_DUP_ENTRY"
    using assms(5-7) by (simp add: insert_vote_def)
  then show ?thesis
    using assms(1-4)
    by (simp add: cast_vote_among_def Let_def cast_vote_write_def cast_vote_catch_def)
qed

theorem C4_duplicate_insert_not_retried_witness:
  "select_user_feature_votes example_db 4 1 = [] \<and>
   select_user_feature_votes (racing_upvote example_db) 4 1 =
     [\<lparr>v_id = 3, v_user_id = 4, v_feature_id = 1, v_vote_type = upvote,
       v_created_at = 9, v_updated_at = 9\<rparr>] \<and>
   cast_vote_among (\<lambda>d. d) racing_upvote (\<lambda>d. d) example_db 4 1 downvote =
     (racing_upvote example_db, 500, Failure ''Internal server error'')"
proof -
  let ?feature = "\<lparr>f_id = 1, f_user_id = 1, f_status = pending,
       votes_count = 1, upvotes_count = 1, downvotes_count = 0, f_updated_at = 3\<rparr>"
  have sel: "select_feature example_db 1 = ?feature # []"
    by (simp add: select_feature_def example_db_def)
  have own: "f_user_id ?feature \<noteq> 4" and st: "f_status ?feature \<noteq> archived" by simp_all
  have none: "select_user_feature_votes example_db 4 1 = []"
    by (simp add: select_user_feature_votes_def example_db_def)
  have usr: "4 \<in> set (users (racing_upvote example_db))"
    by (simp add: racing_upvote_def model_defs example_db_def)
  have fk: "1 \<in> f_id ` set (features (racing_upvote example_db))"
    by (simp add: racing_upvote_def model_defs example_db_def)
  have got: "select_user_feature_votes (racing_upvote example_db) 4 1 =
     [\<lparr>v_id = 3, v_user_id = 4, v_feature_id = 1, v_vote_type = upvote,
       v_created_at = 9, v_updated_at = 9\<rparr>]"
    by (simp add: racing_upvote_def model_defs example_db_def)
  then have some: "select_user_feature_votes (racing_upvote example_db) 4 1 \<noteq> []"
    by simp
  show ?thesis
    using sel own st none usr fk some got
      C4_duplicate_insert_not_retried [where ?env1.0 = "\<lambda>d. d" and ?env2.0 = racing_upvote
        and ?env3.0 = "\<lambda>d. d" and d = example_db and userId = 4 and feature_id = 1
        and vote_type = downvote and feature = ?feature and fs = "[]"]
    by simp
qed

text \<open>
  C4 as stated fails: user 4 upvotes feature 1 while another session of user 4 does the same
  and commits first. The handler answers 500, although the decision replayed on the ledger as
  it then stands would have succeeded (it removes the vote).
\<close>

theorem C4_no_replay_counterexample:
  "snd (cast_vote_among (\<lambda>d. d) racing_upvote (\<lambda>d. d) example_db 4 1 upvote) =
     (500, Failure ''Internal server error'') \<and>
   snd (cast_vote (racing_upvote example_db) 4 1 upvote) =
     (200, Vote_processed None removed None 1 (1, 0, 1))"
  by (simp add: racing_upvote_def model_defs example_db_def)

subsection \<open>C5: a batch of three with a middle operation that does nothing or fails\<close>

text \<open>
  C5 (as amended). Take a batch of three run by an administrator whose first and third
  operations are valid where they run (they have their fields and refer to rows that exist).
  Both are recorded \<^verbatim>\<open>success: true\<close>, and the runner returns three results, in order,
  whatever the second operation is:
  \<^item> if it is an update of a vote id that no row has, its UPDATE finds nothing, raises nothing
    and changes nothing, and it is recorded \<^verbatim>\<open>success: true\<close> (3 of 3 successful);
  \<^item> if it is a create that the table rejects (a foreign key or the unique key), it is
    recorded \<^verbatim>\<open>success: false\<close> with the error, and the third operation still runs
    (2 of 3 successful).
  In every batch the results name the operations one for one, in order.
\<close>

theorem C5_bulk_partial_failure:
  assumes "bulk_op_valid d userId op1" and "bulk_step d userId op1 = (d1, r1)"
    and "bulk_op_valid d1 userId op3" and "bulk_step d1 userId op3 = (d3, r3)"
  shows
    "r_success r1 \<and> r_success r3 \<and>
     (op_action op2 = update \<and> op_vote_id op2 = Some vid \<and> vid \<noteq> 0 \<and>
      op_vote_type op2 = Some t \<and> vid \<notin> v_id ` set (votes d1) \<longrightarrow>
        bulk_votes d userId ''admin'' [op1, op2, op3] =
          (d3, 200,
           Bulk_completed 3 3
             [r1,
              \<lparr>r_operation = op2, r_success = True, r_vote_id = None, r_error = None\<rparr>,
              r3])) \<and>
     (op_action op2 = create \<and> op_feature_id op2 = Some fid \<and> fid \<noteq> 0 \<and>
      op_vote_type op2 = Some t \<and> insert_vote d1 userId fid t = Inl e \<longrightarrow>
        bulk_votes d userId ''admin'' [op1, op2, op3] =
          (d3, 200,
           Bulk_completed 2 3
             [r1,
              \<lparr>r_operation = op2, r_success = False, r_vote_id = None, r_error = Some e\<rparr>,
              r3])) \<and>
     map r_operation (snd (bulk_loop d userId operations)) = operations"
proof -
  have s1: "r_success r1" using bulk_op_valid_success [OF assms(1)] assms(2) by simp
  have s3: "r_success r3" using bulk_op_valid_success [OF assms(3)] assms(4) by simp
  have upd: "bulk_step d1 userId op2 =
      (d1, \<lparr>r_operation = op2, r_success = True, r_vote_id = None, r_error = None\<rparr>)"
    if "op_action op2 = update" "op_vote_id op2 = Some vid" "vid \<noteq> 0"
      "op_vote_type op2 = Some t" "vid \<notin> v_id ` set (votes d1)"
    using that by (simp add: bulk_step_def truthy_def update_vote_type_missing)
  have rej: "bulk_step d1 userId op2 =
      (d1, \<lparr>r_operation = op2, r_success = False, r_vote_id = None, r_error = Some e\<rparr>)"
    if "op_action op2 = create" "op_feature_id op2 = Some fid" "fid \<noteq> 0"
      "op_vote_type op2 = Some t" "insert_vote d1 userId fid t = Inl e"
    using that by (simp add: bulk_step_def truthy_def)
  show ?thesis
    using s1 s3 upd rej assms(2,4)
    by (auto simp: bulk_votes_def bulk_loop_operations)
qed

theorem C5_bulk_partial_failure_witness:
  "bulk_op_valid example_db 4 (example_batch ! 0) \<and>
   bulk_op_valid (fst (bulk_step example_db 4 (example_batch ! 0))) 4 (example_batch ! 2) \<and>
   77 \<notin> v_id ` set (votes (fst (bulk_step example_db 4 (example_batch ! 0)))) \<and>
   map r_success
     (case snd (snd (bulk_votes example_db 4 ''admin'' example_batch)) of
        Bulk_completed n m results \<Rightarrow> results | _ \<Rightarrow> []) = [True, True, True] \<and>
   map r_success
     (case snd (snd (bulk_votes example_db 4 ''admin''
                       [example_batch ! 0,
                        \<lparr>op_action = create, op_feature_id = Some 9, op_vote_id = None,
                         op_vote_type = Some upvote\<rparr>,
                        example_batch ! 2])) of
        Bulk_completed n m results \<Rightarrow> results | _ \<Rightarrow> []) = [True, False, True]"
proof -
  let ?op1 = "example_batch ! 0" and ?op2 = "example_batch ! 1" and ?op3 = "example_batch ! 2"
  let ?bad = "\<lparr>op_action = create, op_feature_id = Some 9, op_vote_id = None,
                         op_vote_type = Some upvote\<rparr>"
  let ?d1 = "fst (bulk_step example_db 4 ?op1)" and ?r1 = "snd (bulk_step example_db 4 ?op1)"
  let ?d3 = "fst (bulk_step ?d1 4 ?op3)" and ?r3 = "snd (bulk_step ?d1 4 ?op3)"
  have v1: "bulk_op_valid example_db 4 ?op1"
    by (simp add: bulk_op_valid_def example_batch_def example_db_def
        select_user_feature_votes_def)
  have e1: "bulk_step example_db 4 ?op1 = (?d1, ?r1)" by simp
  have votes1: "votes ?d1 = votes example_db @
      [\<lparr>v_id = 3, v_user_id = 4, v_feature_id = 1, v_vote_type = upvote,
        v_created_at = 9, v_updated_at = 9\<rparr>]"
    by (simp add: model_defs example_db_def example_batch_def)
  have v3: "bulk_op_valid ?d1 4 ?op3"
    unfolding bulk_op_valid_def votes1 by (simp add: example_batch_def example_db_def)
  have e3: "bulk_step ?d1 4 ?op3 = (?d3, ?r3)" by simp
  have miss: "77 \<notin> v_id ` set (votes ?d1)"
    unfolding votes1 by (simp add: example_db_def)
  have rej: "insert_vote ?d1 4 9 upvote = Inl ER_NO_REFERENCED_ROW_2"
    by (simp add: model_defs example_db_def example_batch_def)
  have batch: "example_batch = [?op1, ?op2, ?op3]" by (simp add: example_batch_def)
  have upd: "op_action ?op2 = update \<and> op_vote_id ?op2 = Some 77 \<and> (77::nat) \<noteq> 0 \<and>
      op_vote_type ?op2 = Some upvote"
    by (simp add: example_batch_def)
  have a: "bulk_votes example_db 4 ''admin'' [?op1, ?op2, ?op3] =
      (?d3, 200, Bulk_completed 3 3
         [?r1, \<lparr>r_operation = ?op2, r_success = True, r_vote_id = None, r_error = None\<rparr>, ?r3])"
    using C5_bulk_partial_failure [OF v1 e1 v3 e3, where ?op2.0 = ?op2 and vid = 77
        and t = upvote] upd miss
    by blast
  have b: "bulk_votes example_db 4 ''admin'' [?op1, ?bad, ?op3] =
      (?d3, 200, Bulk_completed 2 3
         [?r1, \<lparr>r_operation = ?bad, r_success = False, r_vote_id = None,
                 r_error = Some ER_NO_REFERENCED_ROW_2\<rparr>, ?r3])"
    using C5_bulk_partial_failure [OF v1 e1 v3 e3, where ?op2.0 = ?bad and fid = 9
        and t = upvote and e = ER_NO_REFERENCED_ROW_2] rej
    by simp
  have s: "r_success ?r1" "r_success ?r3"
    using C5_bulk_partial_failure [OF v1 e1 v3 e3] by blast+
  have a': "bulk_votes example_db 4 ''admin'' example_batch =
      (?d3, 200, Bulk_completed 3 3
         [?r1, \<lparr>r_operation = ?op2, r_success = True, r_vote_id = None, r_error = None\<rparr>, ?r3])"
    using a batch by simp
  show ?thesis
    using v1 v3 miss s by (simp add: a' b)
qed

text \<open>
  C5 as stated fails: in the batch of three for user 4, no vote has id 77, and the update of
  vote 77 is reported \<^verbatim>\<open>success: true\<close>.
\<close>

theorem C5_update_of_missing_vote_counterexample:
  "77 \<notin> v_id ` set (votes example_db) \<and>
   snd (bulk_votes example_db 4 ''admin'' example_batch) =
     (200,
      Bulk_completed 3 3
        [\<lparr>r_operation = \<lparr>op_action = create, op_feature_id = Some 1, op_vote_id = None,
                          op_vote_type = Some upvote\<rparr>,
          r_success = True, r_vote_id = Some 3, r_error = None\<rparr>,
         \<lparr>r_operation = \<lparr>op_action = update, op_feature_id = None, op_vote_id = Some 77,
                          op_vote_type = Some upvote\<rparr>,
          r_success = True, r_vote_id = None, r_error = None\<rparr>,
         \<lparr>r_operation = \<lparr>op_action = delete, op_feature_id = None, op_vote_id = Some 1,
                          op_vote_type = None\<rparr>,
          r_success = True, r_vote_id = None, r_error = None\<rparr>])"
  by (simp add: model_defs example_db_def example_batch_def)

subsection \<open>C6: casting the same vote twice\<close>

text \<open>
  C6. Let the caller be allowed to vote on the feature (it exists, is not archived, belongs to
  someone else; the caller is a row of \<^verbatim>\<open>users\<close>) and have no vote on it, in a database whose
  vote ids are a primary key and where the feature's counters agree with the ledger. Casting
  the same vote type twice, the second time at any later reading of the clock, answers \<^verbatim>\<open>created\<close>, then \<^verbatim>\<open>removed\<close>; afterwards the caller has no
  vote on the feature, the ledger is the one before the first cast, and every feature row has
  the counters it had before the first cast.
\<close>

theorem C6_double_cast_round_trip:
  assumes "select_feature d feature_id = feature # fs"
    and "f_status feature \<noteq> archived" and "f_user_id feature \<noteq> userId"
    and "userId \<in> set (users d)" and "votes_pk d"
    and "select_user_feature_votes d userId feature_id = []"
    and "list_all (counters_match (votes d)) (select_feature d feature_id)"
  shows "select_user_feature_votes
           (fst (cast_vote (at_time later (fst (cast_vote d userId feature_id vote_type)))
                   userId feature_id vote_type)) userId feature_id = [] \<and>
         votes (fst (cast_vote (at_time later (fst (cast_vote d userId feature_id vote_type)))
                   userId feature_id vote_type)) = votes d \<and>
         map counters
           (features
              (fst (cast_vote (at_time later (fst (cast_vote d userId feature_id vote_type)))
                      userId feature_id vote_type))) = map counters (features d) \<and>
         snd (cast_vote d userId feature_id vote_type) =
           (200, Vote_processed (Some (votes_auto_increment d)) created (Some vote_type)
                   feature_id
                   (select_vote_counts (fst (cast_vote d userId feature_id vote_type))
                      feature_id)) \<and>
         snd (cast_vote (at_time later (fst (cast_vote d userId feature_id vote_type)))
                userId feature_id vote_type) =
           (200, Vote_processed None removed None feature_id
                   (select_vote_counts d feature_id))"
proof -
  define NEW where "NEW = \<lparr>v_id = votes_auto_increment d, v_user_id = userId,
      v_feature_id = feature_id, v_vote_type = vote_type,
      v_created_at = now d, v_updated_at = now d\<rparr>"
  define d0 where "d0 = d\<lparr>votes := votes d @ [NEW],
      votes_auto_increment := Suc (votes_auto_increment d)\<rparr>"
  define d1 where "d1 = at_time later (recount_feature d0 feature_id)"
  define d2 where "d2 = recount_feature (d1\<lparr>votes := votes d\<rparr>) feature_id"
  have fk: "feature_id \<in> f_id ` set (features d)"
    using select_feature_found [OF assms(1)] .
  have ins: "insert_vote d userId feature_id vote_type =
      Inr (recount_feature d0 feature_id, votes_auto_increment d)"
    using insert_vote_result [OF assms(4) fk assms(6)] by (simp add: d0_def NEW_def)
  have first: "cast_vote d userId feature_id vote_type =
      (recount_feature d0 feature_id, 200,
       Vote_processed (Some (votes_auto_increment d)) created (Some vote_type)
         feature_id (select_vote_counts (recount_feature d0 feature_id) feature_id))"
    by (simp add: cast_vote_passes [OF assms(1,3,2)] assms(6) cast_vote_write_def ins)
  have votes1: "votes d1 = votes d @ [NEW]" by (simp add: d1_def d0_def at_time_def)
  have "select_feature d0 feature_id = feature # fs"
    using assms(1) by (simp add: select_feature_def d0_def)
  then have "\<exists>feature1 fs1.
      select_feature (recount_feature d0 feature_id) feature_id = feature1 # fs1 \<and>
      f_user_id feature1 = f_user_id feature \<and> f_status feature1 = f_status feature"
    by (simp add: select_feature_recount)
  moreover have "select_feature d1 feature_id =
      select_feature (recount_feature d0 feature_id) feature_id"
    by (simp add: d1_def at_time_def select_feature_def)
  ultimately obtain feature1 fs1 where sel1: "select_feature d1 feature_id = feature1 # fs1"
    and own1: "f_user_id feature1 \<noteq> userId" and st1: "f_status feature1 \<noteq> archived"
    using assms(2,3) by auto
  have ex1: "select_user_feature_votes d1 userId feature_id = [NEW]"
    using assms(6) by (simp add: select_user_feature_votes_def votes1 NEW_def)
  have below: "list_all (\<lambda>v. v_id v < votes_auto_increment d) (votes d)"
    using assms(5) by (simp add: votes_pk_def)
  have idn: "v_id NEW = votes_auto_increment d" by (simp add: NEW_def)
  have fnd: "find (\<lambda>v. v_id v = v_id NEW) (votes d1) = Some NEW"
    using find_fresh(1) [OF below idn] by (simp add: votes1 idn)
  have flt: "filter (\<lambda>v. v_id v \<noteq> v_id NEW) (votes d1) = votes d"
    using find_fresh(2) [OF below idn] by (simp add: votes1 idn)
  have fidn: "v_feature_id NEW = feature_id" by (simp add: NEW_def)
  have del: "delete_vote d1 (v_id NEW) = d2"
    unfolding delete_vote_result [OF fnd] flt fidn d2_def ..
  have second: "cast_vote d1 userId feature_id vote_type =
      (d2, 200, Vote_processed None removed None feature_id (select_vote_counts d2 feature_id))"
    by (simp add: cast_vote_passes [OF sel1 own1 st1] ex1 cast_vote_write_def del)
      (simp add: NEW_def)
  have votes2: "votes d2 = votes d" by (simp add: d2_def)
  have sync: "\<And>g. g \<in> set (features d) \<Longrightarrow> f_id g = feature_id \<Longrightarrow>
      counters_match (votes d) g"
    using assms(7) by (simp add: list_all_iff select_feature_def)
  have feats: "map counters (features d2) = map counters (features d)"
    using sync
    by (auto simp: d2_def d1_def d0_def at_time_def features_recount_feature counters_def
        counters_match_def)
  have cnt: "select_vote_counts d2 feature_id = select_vote_counts d feature_id"
    by (simp add: select_vote_counts_def votes2)
  show ?thesis
    using assms(6)
    by (simp add: first second [unfolded d1_def] votes2 feats cnt
        select_user_feature_votes_def)
qed

theorem C6_double_cast_round_trip_witness:
  "select_user_feature_votes example_db 4 1 = [] \<and>
   select_user_feature_votes
     (fst (cast_vote (at_time 12 (fst (cast_vote example_db 4 1 upvote))) 4 1 upvote)) 4 1 =
     [] \<and>
   votes (fst (cast_vote (at_time 12 (fst (cast_vote example_db 4 1 upvote))) 4 1 upvote)) =
     votes example_db \<and>
   map counters
     (features (fst (cast_vote (at_time 12 (fst (cast_vote example_db 4 1 upvote)))
                       4 1 upvote))) =
     [(1, 1, 1, 0), (2, - 1, 0, 1)]"
proof -
  let ?feature = "\<lparr>f_id = 1, f_user_id = 1, f_status = pending,
       votes_count = 1, upvotes_count = 1, downvotes_count = 0, f_updated_at = 3\<rparr>"
  have sel: "select_feature example_db 1 = ?feature # []"
    by (simp add: select_feature_def example_db_def)
  have st: "f_status ?feature \<noteq> archived" and own: "f_user_id ?feature \<noteq> 4" by simp_all
  have usr: "4 \<in> set (users example_db)" by (simp add: example_db_def)
  have pk: "votes_pk example_db" by (simp add: votes_pk_def example_db_def)
  have none: "select_user_feature_votes example_db 4 1 = []"
    by (simp add: select_user_feature_votes_def example_db_def)
  have sync: "list_all (counters_match (votes example_db)) (select_feature example_db 1)"
    unfolding sel by (simp add: counters_match_def count_votes_def example_db_def)
  show ?thesis
    using none C6_double_cast_round_trip [OF sel st own usr pk none sync, of 12 upvote]
    by (simp add: example_db_def counters_def)
qed

subsection \<open>C7: no self-vote\<close>

text \<open>
  C7. When the feature looked up by POST /votes belongs to the caller, the handler answers
  400 "Cannot vote on your own feature" and the database is the one it started from: no vote
  row is inserted and no counter changes, whatever the vote type, the feature's status and
  the ledger.
\<close>

theorem C7_no_self_vote:
  assumes "select_feature d feature_id = feature # fs"
    and "f_user_id feature = userId"
  shows "cast_vote d userId feature_id vote_type =
           (d, 400, Failure ''Cannot vote on your own feature'')"
  using assms by (simp add: cast_vote_def cast_vote_among_def)

theorem C7_no_self_vote_witness:
  "select_feature example_db 1 =
     [\<lparr>f_id = 1, f_user_id = 1, f_status = pending,
       votes_count = 1, upvotes_count = 1, downvotes_count = 0, f_updated_at = 3\<rparr>] \<and>
   cast_vote example_db 1 1 upvote =
     (example_db, 400, Failure ''Cannot vote on your own feature'')"
proof -
  have sel: "select_feature example_db 1 =
     \<lparr>f_id = 1, f_user_id = 1, f_status = pending,
       votes_count = 1, upvotes_count = 1, downvotes_count = 0, f_updated_at = 3\<rparr> # []"
    by (simp add: select_feature_def example_db_def)
  show ?thesis
    using sel C7_no_self_vote [OF sel, of 1 upvote] by simp
qed

subsection \<open>C8: votes on archived features\<close>

text \<open>
  C8 (as amended). When the feature looked up by POST /votes is archived, the handler answers
  400 and leaves the database as it was, whatever the caller's earlier votes: with
  "Cannot vote on archived features" for every caller but the owner, and with
  "Cannot vote on your own feature" for the owner, whose call the self-vote check, placed
  first, turns away.
\<close>

theorem C8_archived_rejected:
  assumes "select_feature d feature_id = feature # fs"
    and "f_status feature = archived"
  shows "cast_vote d userId feature_id vote_type =
           (d, 400,
            Failure (if f_user_id feature = userId then ''Cannot vote on your own feature''
                     else ''Cannot vote on archived features''))"
  using assms by (simp add: cast_vote_def cast_vote_among_def)

theorem C8_archived_rejected_witness:
  "map f_status (select_feature example_db 2) = [archived] \<and>
   cast_vote example_db 3 2 downvote =
     (example_db, 400, Failure ''Cannot vote on archived features'') \<and>
   cast_vote example_db 1 2 downvote =
     (example_db, 400, Failure ''Cannot vote on your own feature'')"
proof -
  have sel: "select_feature example_db 2 =
     \<lparr>f_id = 2, f_user_id = 1, f_status = archived,
       votes_count = - 1, upvotes_count = 0, downvotes_count = 1, f_updated_at = 4\<rparr> # []"
    by (simp add: select_feature_def example_db_def)
  show ?thesis
    using sel C8_archived_rejected [OF sel, of 3 downvote]
      C8_archived_rejected [OF sel, of 1 downvote]
    by simp
qed

text \<open>
  C8 as stated fails for the owner of an archived feature: user 1 owns the archived feature 2,
  and the answer names the self-vote, not the archived status.
\<close>

theorem C8_owner_on_archived_counterexample:
  "map f_status (select_feature example_db 2) = [archived] \<and>
   snd (cast_vote example_db 1 2 upvote) = (400, Failure ''Cannot vote on your own feature'') \<and>
   snd (cast_vote example_db 1 2 upvote) \<noteq> (400, Failure ''Cannot vote on archived features'')"
  by (simp add: cast_vote_def cast_vote_among_def select_feature_def example_db_def)

subsection \<open>C9: a missing vote and another user's vote look the same\<close>

lemma select_vote_of_user_other:
  assumes "distinct (map v_id vs)" "other \<in> set vs" "v_id other = vid" "v_user_id other \<noteq> uid"
  shows "filter (\<lambda>v. v_id v = vid \<and> v_user_id v = uid) vs = []"
proof -
  have "\<And>v. v \<in> set vs \<Longrightarrow> v_id v = vid \<Longrightarrow> v = other"
    using assms(1-3) by (metis distinct_map inj_onD)
  then show ?thesis using assms(4) by (auto simp: filter_empty_conv)
qed

text \<open>
  C9. Take two databases and one request (vote id, caller, vote type): in the first no vote
  has that id, in the second the vote with that id belongs to someone else. PUT /votes/:id
  gives the same response in both, 404 "Vote not found or access denied", and so does
  DELETE /votes/:id; neither database changes.
\<close>

theorem C9_not_found_indistinguishable:
  assumes "voteId \<notin> v_id ` set (votes d1)"
    and "votes_pk d2"
    and "other \<in> set (votes d2)" and "v_id other = voteId" and "v_user_id other \<noteq> userId"
  shows "update_vote d1 voteId userId vote_type =
           (d1, 404, Failure ''Vote not found or access denied'') \<and>
         update_vote d2 voteId userId vote_type =
           (d2, 404, Failure ''Vote not found or access denied'') \<and>
         remove_vote d1 voteId userId =
           (d1, 404, Failure ''Vote not found or access denied'') \<and>
         remove_vote d2 voteId userId =
           (d2, 404, Failure ''Vote not found or access denied'') \<and>
         snd (update_vote d1 voteId userId vote_type) =
           snd (update_vote d2 voteId userId vote_type) \<and>
         snd (remove_vote d1 voteId userId) = snd (remove_vote d2 voteId userId)"
proof -
  have e1: "select_vote_of_user d1 voteId userId = []"
    using assms(1) by (auto simp: select_vote_of_user_def filter_empty_conv)
  have e2: "select_vote_of_user d2 voteId userId = []"
    unfolding select_vote_of_user_def
    using assms(2-5) by (intro select_vote_of_user_other) (auto simp: votes_pk_def)
  show ?thesis
    by (simp add: update_vote_def remove_vote_def e1 e2)
qed

theorem C9_not_found_indistinguishable_witness:
  "2 \<notin> v_id ` set (votes (example_db\<lparr>votes := []\<rparr>)) \<and> votes_pk example_db \<and>
   snd (update_vote (example_db\<lparr>votes := []\<rparr>) 2 4 upvote) =
     snd (update_vote example_db 2 4 upvote) \<and>
   snd (remove_vote (example_db\<lparr>votes := []\<rparr>) 2 4) = snd (remove_vote example_db 2 4) \<and>
   snd (remove_vote example_db 2 4) = (404, Failure ''Vote not found or access denied'')"
proof -
  let ?other = "\<lparr>v_id = 2, v_user_id = 3, v_feature_id = 2, v_vote_type = downvote,
          v_created_at = 4, v_updated_at = 4\<rparr>"
  have h1: "2 \<notin> v_id ` set (votes (example_db\<lparr>votes := []\<rparr>))" by simp
  have h2: "votes_pk example_db" by (simp add: votes_pk_def example_db_def)
  have h3: "?other \<in> set (votes example_db)" by (simp add: example_db_def)
  have h4: "v_id ?other = 2" by simp
  have h5: "v_user_id ?other \<noteq> 4" by simp
  show ?thesis
    using h1 h2 C9_not_found_indistinguishable [OF h1 h2 h3 h4 h5, of upvote]
    by simp
qed

subsection \<open>C10: a bulk create is the caller's own, unchecked insert\<close>

text \<open>
  C10. A bulk create that carries a feature id and a vote type goes straight to the INSERT
  with the caller's id as \<^verbatim>\<open>user_id\<close> (the operation has no user field). Whatever the
  feature's owner and status, and with no lookup of an earlier vote: when the caller is a
  row of \<^verbatim>\<open>users\<close>, the feature exists and the caller has no vote on it, the row is appended
  and the operation succeeds; when the caller has a vote on it, the unique key rejects the
  insert, the result is a failure and nothing is toggled; when a foreign key fails, the
  result is a failure. Over a whole batch, every row with an id the batch handed out carries
  the caller's id. The witness has the administrator's upvote recorded on an archived feature
  of their own.
\<close>

theorem C10_bulk_create_unchecked:
  assumes "op_action op = create"
    and "op_feature_id op = Some fid" and "fid \<noteq> 0"
    and "op_vote_type op = Some t"
  shows
    "(userId \<in> set (users d) \<and> fid \<in> f_id ` set (features d) \<and>
      select_user_feature_votes d userId fid = [] \<longrightarrow>
        snd (bulk_step d userId op) =
          \<lparr>r_operation = op, r_success = True,
           r_vote_id = Some (votes_auto_increment d), r_error = None\<rparr> \<and>
        votes (fst (bulk_step d userId op)) =
          votes d @ [\<lparr>v_id = votes_auto_increment d, v_user_id = userId, v_feature_id = fid,
                       v_vote_type = t, v_created_at = now d, v_updated_at = now d\<rparr>]) \<and>
     (userId \<in> set (users d) \<and> fid \<in> f_id ` set (features d) \<and>
      select_user_feature_votes d userId fid \<noteq> [] \<longrightarrow>
        bulk_step d userId op =
          (d, \<lparr>r_operation = op, r_success = False, r_vote_id = None,
               r_error = Some ER_DUP_ENTRY\<rparr>)) \<and>
     (userId \<notin> set (users d) \<or> fid \<notin> f_id ` set (features d) \<longrightarrow>
        bulk_step d userId op =
          (d, \<lparr>r_operation = op, r_success = False, r_vote_id = None,
               r_error = Some ER_NO_REFERENCED_ROW_2\<rparr>)) \<and>
     (votes_pk d \<longrightarrow>
        list_all (\<lambda>v. votes_auto_increment d \<le> v_id v \<longrightarrow> v_user_id v = userId)
          (votes (fst (bulk_votes d userId userRole operations))))"
proof -
  have batch: "votes_pk d \<Longrightarrow>
      list_all (\<lambda>v. votes_auto_increment d \<le> v_id v \<longrightarrow> v_user_id v = userId)
        (votes (fst (bulk_votes d userId userRole operations)))"
    using bulk_votes_rows_from [of d userId userRole operations] by (simp add: rows_from_def)
  have step: "bulk_step d userId op =
      (case insert_vote d userId fid t of
         Inl opError \<Rightarrow>
           (d, \<lparr>r_operation = op, r_success = False, r_vote_id = None,
                r_error = Some opError\<rparr>)
       | Inr (d', insertId) \<Rightarrow>
           (d', \<lparr>r_operation = op, r_success = True, r_vote_id = Some insertId,
                 r_error = None\<rparr>))"
    using assms by (simp add: bulk_step_def truthy_def split: sum.splits)
  have ok: "userId \<in> set (users d) \<Longrightarrow> fid \<in> f_id ` set (features d) \<Longrightarrow>
      select_user_feature_votes d userId fid = [] \<Longrightarrow>
      snd (bulk_step d userId op) =
          \<lparr>r_operation = op, r_success = True,
           r_vote_id = Some (votes_auto_increment d), r_error = None\<rparr> \<and>
        votes (fst (bulk_step d userId op)) =
          votes d @ [\<lparr>v_id = votes_auto_increment d, v_user_id = userId, v_feature_id = fid,
                       v_vote_type = t, v_created_at = now d, v_updated_at = now d\<rparr>]"
    by (simp add: step insert_vote_result)
  have dup: "userId \<in> set (users d) \<Longrightarrow> fid \<in> f_id ` set (features d) \<Longrightarrow>
      select_user_feature_votes d userId fid \<noteq> [] \<Longrightarrow>
      insert_vote d userId fid t = Inl ER_DUP_ENTRY"
    by (simp add: insert_vote_def)
  have fk: "userId \<notin> set (users d) \<or> fid \<notin> f_id ` set (features d) \<Longrightarrow>
      insert_vote d userId fid t = Inl ER_NO_REFERENCED_ROW_2"
    by (auto simp: insert_vote_def)
  show ?thesis
    using ok dup fk batch by (simp add: step)
qed

theorem C10_bulk_create_unchecked_witness:
  "map (\<lambda>f. (f_user_id f, f_status f)) (select_feature example_db 2) = [(1, archived)] \<and>
   bulk_step example_db 1
     \<lparr>op_action = create, op_feature_id = Some 2, op_vote_id = None,
      op_vote_type = Some upvote\<rparr> =
     (fst (bulk_step example_db 1
             \<lparr>op_action = create, op_feature_id = Some 2, op_vote_id = None,
              op_vote_type = Some upvote\<rparr>),
      \<lparr>r_operation = \<lparr>op_action = create, op_feature_id = Some 2, op_vote_id = None,
                       op_vote_type = Some upvote\<rparr>,
       r_success = True, r_vote_id = Some 3, r_error = None\<rparr>) \<and>
   votes (fst (bulk_step example_db 1
                 \<lparr>op_action = create, op_feature_id = Some 2, op_vote_id = None,
                  op_vote_type = Some upvote\<rparr>)) =
     votes example_db @ [\<lparr>v_id = 3, v_user_id = 1, v_feature_id = 2, v_vote_type = upvote,
                           v_created_at = 9, v_updated_at = 9\<rparr>] \<and>
   bulk_step example_db 3
     \<lparr>op_action = create, op_feature_id = Some 2, op_vote_id = None,
      op_vote_type = Some downvote\<rparr> =
     (example_db,
      \<lparr>r_operation = \<lparr>op_action = create, op_feature_id = Some 2, op_vote_id = None,
                       op_vote_type = Some downvote\<rparr>,
       r_success = False, r_vote_id = None, r_error = Some ER_DUP_ENTRY\<rparr>) \<and>
   bulk_step example_db 1
     \<lparr>op_action = create, op_feature_id = Some 9, op_vote_id = None,
      op_vote_type = Some upvote\<rparr> =
     (example_db,
      \<lparr>r_operation = \<lparr>op_action = create, op_feature_id = Some 9, op_vote_id = None,
                       op_vote_type = Some upvote\<rparr>,
       r_success = False, r_vote_id = None, r_error = Some ER_NO_REFERENCED_ROW_2\<rparr>) \<and>
   list_all (\<lambda>v. 3 \<le> v_id v \<longrightarrow> v_user_id v = 4)
     (votes (fst (bulk_votes example_db 4 ''admin'' example_batch)))"
proof -
  let ?own = "\<lparr>op_action = create, op_feature_id = Some 2, op_vote_id = None,
      op_vote_type = Some upvote\<rparr>"
  let ?again = "\<lparr>op_action = create, op_feature_id = Some 2, op_vote_id = None,
      op_vote_type = Some downvote\<rparr>"
  let ?missing = "\<lparr>op_action = create, op_feature_id = Some 9, op_vote_id = None,
      op_vote_type = Some upvote\<rparr>"
  have feat: "map (\<lambda>f. (f_user_id f, f_status f)) (select_feature example_db 2) =
      [(1, archived)]"
    by (simp add: select_feature_def example_db_def)
  have u1: "1 \<in> set (users example_db)" and u3: "3 \<in> set (users example_db)"
    and f2: "2 \<in> f_id ` set (features example_db)"
    and f9: "9 \<notin> f_id ` set (features example_db)"
    and none: "select_user_feature_votes example_db 1 2 = []"
    and some: "select_user_feature_votes example_db 3 2 \<noteq> []"
    and inc: "votes_auto_increment example_db = 3" and clock: "now example_db = 9"
    by (simp_all add: example_db_def select_user_feature_votes_def)
  have pk: "votes_pk example_db" by (simp add: votes_pk_def example_db_def)
  have a: "snd (bulk_step example_db 1 ?own) =
        \<lparr>r_operation = ?own, r_success = True, r_vote_id = Some 3, r_error = None\<rparr> \<and>
      votes (fst (bulk_step example_db 1 ?own)) =
        votes example_db @ [\<lparr>v_id = 3, v_user_id = 1, v_feature_id = 2, v_vote_type = upvote,
                              v_created_at = 9, v_updated_at = 9\<rparr>]"
    using C10_bulk_create_unchecked [of ?own 2 upvote 1 example_db] u1 f2 none
    by (simp add: inc clock)
  have b: "bulk_step example_db 3 ?again =
      (example_db, \<lparr>r_operation = ?again, r_success = False, r_vote_id = None,
                     r_error = Some ER_DUP_ENTRY\<rparr>)"
    using C10_bulk_create_unchecked [of ?again 2 downvote 3 example_db] u3 f2 some
    by simp
  have c: "bulk_step example_db 1 ?missing =
      (example_db, \<lparr>r_operation = ?missing, r_success = False, r_vote_id = None,
                     r_error = Some ER_NO_REFERENCED_ROW_2\<rparr>)"
    using C10_bulk_create_unchecked [of ?missing 9 upvote 1 example_db] f9
    by simp
  have e: "list_all (\<lambda>v. 3 \<le> v_id v \<longrightarrow> v_user_id v = 4)
     (votes (fst (bulk_votes example_db 4 ''admin'' example_batch)))"
    using C10_bulk_create_unchecked [of ?own 2 upvote 4 example_db "''admin''" example_batch] pk
    by (simp add: inc)
  from a have a': "bulk_step example_db 1 ?own =
     (fst (bulk_step example_db 1 ?own),
      \<lparr>r_operation = ?own, r_success = True, r_vote_id = Some 3, r_error = None\<rparr>)"
    by (metis prod.collapse)
  from feat a a' b c e show ?thesis by blast
qed

end
